theory Spec2Isabelle
  imports Complex_Main "HOL-Library.Multiset"
begin

section \<open>WorkTimeTaskLogger: entry store, sampler, aggregation and reports\<close>

text \<open>
  A shallow embedding of the capture-to-storage pipeline of WorkTimeTaskLogger:
  \<^verbatim>\<open>src/storage/database.ts\<close>, \<^verbatim>\<open>src/index.ts\<close> (the capture cycle),
  \<^verbatim>\<open>src/capture/idle.ts\<close>, \<^verbatim>\<open>src/capture/window.ts\<close>, \<^verbatim>\<open>src/agent.ts\<close> and
  \<^verbatim>\<open>src/reports/weekly.ts\<close>.

  Conventions of the model.
  \<^item> A JavaScript \<^verbatim>\<open>Date\<close> is its time value, the number of milliseconds since the epoch
    (\<^verbatim>\<open>getTime()\<close>), an \<open>int\<close>. Invalid dates (NaN) are outside the model.
  \<^item> The table column \<^verbatim>\<open>timestamp\<close> holds \<^verbatim>\<open>toISOString()\<close> of the date and SQLite
    compares the texts. For the years 0000 to 9999 the text has the fixed width form
    \<^verbatim>\<open>YYYY-MM-DDTHH:mm:ss.sssZ\<close>, whose order is the order of the time values; the model
    compares the time values and is about dates in that range.
  \<^item> Local time is UTC plus a fixed offset \<open>tza\<close> (milliseconds), a parameter of every
    function that reads or writes local date fields. Daylight saving transitions are
    outside the model.
  \<^item> Numbers that hold seconds and milliseconds are integers; hours, which the code
    computes with a floating point division, are reals.
  \<^item> Strings are lists of 8-bit characters; \<^verbatim>\<open>toLowerCase\<close> is modelled on the ASCII
    letters.
  \<^item> The database is open and its statements succeed: an I/O error of the store, which
    would end the running operation with an exception, is outside the model.
\<close>

subsection \<open>Dates (ECMAScript time values)\<close>

type_synonym Date = int

definition msPerDay :: int where
  "msPerDay = 86400000"

definition LocalTime :: "int \<Rightarrow> Date \<Rightarrow> int" where
  "LocalTime tza t = t + tza"

definition UTC :: "int \<Rightarrow> int \<Rightarrow> Date" where
  "UTC tza t = t - tza"

definition Day :: "int \<Rightarrow> int" where
  "Day t = t div msPerDay"

definition TimeWithinDay :: "int \<Rightarrow> int" where
  "TimeWithinDay t = t mod msPerDay"


definition MakeDate :: "int \<Rightarrow> int \<Rightarrow> int" where
  "MakeDate day time = day * msPerDay + time"

text \<open>
  Year, month and day of the month of a time value, as ECMAScript defines them.
  \<open>YearFromTime t\<close> is the largest \<open>y\<close> with \<open>DayFromYear y \<le> Day t\<close>; it is computed
  from the mean length of a year, 146097 / 400 days, and one correction.
\<close>

definition DaysInYear :: "int \<Rightarrow> int" where
  "DaysInYear y =
     (if y mod 4 \<noteq> 0 then 365
      else if y mod 100 \<noteq> 0 then 366
      else if y mod 400 \<noteq> 0 then 365
      else 366)"

definition DayFromYear :: "int \<Rightarrow> int" where
  "DayFromYear y =
     365 * (y - 1970) + (y - 1969) div 4 - (y - 1901) div 100 + (y - 1601) div 400"

definition YearFromTime :: "int \<Rightarrow> int" where
  "YearFromTime t =
     (let d = Day t;
          y = 1970 + (400 * d) div 146097
      in if d < DayFromYear y then y - 1
         else if DayFromYear (y + 1) \<le> d then y + 1
         else y)"

definition leapDays :: "int \<Rightarrow> int" where
  "leapDays y = (if DaysInYear y = 366 then 1 else 0)"

definition InLeapYear :: "int \<Rightarrow> int" where
  "InLeapYear t = leapDays (YearFromTime t)"

definition DayWithinYear :: "int \<Rightarrow> int" where
  "DayWithinYear t = Day t - DayFromYear (YearFromTime t)"

definition MonthFromTime :: "int \<Rightarrow> int" where
  "MonthFromTime t =
     (let d = DayWithinYear t;
          l = InLeapYear t
      in if d < 31 then 0
         else if d < 59 + l then 1
         else if d < 90 + l then 2
         else if d < 120 + l then 3
         else if d < 151 + l then 4
         else if d < 181 + l then 5
         else if d < 212 + l then 6
         else if d < 243 + l then 7
         else if d < 273 + l then 8
         else if d < 304 + l then 9
         else if d < 334 + l then 10
         else 11)"

definition DateFromTime :: "int \<Rightarrow> int" where
  "DateFromTime t =
     (let d = DayWithinYear t;
          l = InLeapYear t;
          m = MonthFromTime t
      in if m = 0 then d + 1
         else if m = 1 then d - 30
         else if m = 2 then d - 58 - l
         else if m = 3 then d - 89 - l
         else if m = 4 then d - 119 - l
         else if m = 5 then d - 150 - l
         else if m = 6 then d - 180 - l
         else if m = 7 then d - 211 - l
         else if m = 8 then d - 242 - l
         else if m = 9 then d - 272 - l
         else if m = 10 then d - 303 - l
         else d - 333 - l)"

text \<open>
  \<^verbatim>\<open>MakeDay(year, month, date)\<close>: the day number of the first of the month \<open>mn\<close> of the
  year \<open>ym\<close>, plus \<open>date - 1\<close>. \<open>month\<close> counts from 0 and may lie outside 0 to 11, and
  \<open>date\<close> may lie outside the month: both carry over.
\<close>

definition DaysBeforeMonth :: "int \<Rightarrow> int \<Rightarrow> int" where
  "DaysBeforeMonth mn l =
     (if mn = 0 then 0
      else if mn = 1 then 31
      else if mn = 2 then 59 + l
      else if mn = 3 then 90 + l
      else if mn = 4 then 120 + l
      else if mn = 5 then 151 + l
      else if mn = 6 then 181 + l
      else if mn = 7 then 212 + l
      else if mn = 8 then 243 + l
      else if mn = 9 then 273 + l
      else if mn = 10 then 304 + l
      else 334 + l)"

definition MakeDay :: "int \<Rightarrow> int \<Rightarrow> int \<Rightarrow> int" where
  "MakeDay year month dt =
     (let ym = year + month div 12;
          mn = month mod 12
      in DayFromYear ym + DaysBeforeMonth mn (leapDays ym) + dt - 1)"


definition getDate :: "int \<Rightarrow> Date \<Rightarrow> int" where
  "getDate tza d = DateFromTime (LocalTime tza d)"

text \<open>\<^verbatim>\<open>setDate(dt)\<close>: the day \<open>dt\<close> of the month of the local time, same time within the day.\<close>

definition setDate :: "int \<Rightarrow> Date \<Rightarrow> int \<Rightarrow> Date" where
  "setDate tza d dt =
     (let t = LocalTime tza d;
          newDate = MakeDate (MakeDay (YearFromTime t) (MonthFromTime t) dt) (TimeWithinDay t)
      in UTC tza newDate)"

text \<open>\<^verbatim>\<open>setHours(h, m, s, ms)\<close>: same local day, new time within the day.\<close>

definition setHours :: "int \<Rightarrow> Date \<Rightarrow> int \<Rightarrow> int \<Rightarrow> int \<Rightarrow> int \<Rightarrow> Date" where
  "setHours tza d h m s ms =
     (let t = LocalTime tza d
      in UTC tza (MakeDate (Day t) (h * 3600000 + m * 60000 + s * 1000 + ms)))"

subsection \<open>Data model (\<^verbatim>\<open>types.ts\<close>)\<close>

type_synonym WorkCategory = string

record WindowInfo =
  appName_w :: string
  title :: string
  bundleId :: "string option"
  pid :: int

text \<open>\<^verbatim>\<open>Omit<TimeEntry, "id">\<close>, the argument of \<^verbatim>\<open>insertTimeEntry\<close>.\<close>

record TimeEntryData =
  timestamp :: Date
  appName :: string
  windowTitle :: string
  screenshotPath :: "string option"
  taskDescription :: "string option"
  projectId :: "string option"
  manualProjectId :: "string option"
  durationSeconds :: "int option"
  isIdle :: bool
  aiAnalysis :: "string option"

record TimeEntry = TimeEntryData +
  id_entry :: nat

record ProjectTime =
  projectId_p :: string
  projectName :: string
  seconds_p :: int
  entries_p :: int

record CategoryTime =
  category_c :: WorkCategory
  seconds_c :: int
  entries_c :: int

record AppTime =
  appName_a :: string
  seconds_a :: int
  entries_a :: int

record DailySummary =
  date :: Date
  totalTrackedSeconds :: int
  idleSeconds :: int
  activeSeconds :: int
  projectBreakdown :: "ProjectTime list"
  categoryBreakdown :: "CategoryTime list"
  topApps :: "AppTime list"

record WeeklyReport =
  weekStartDate :: Date
  weekEndDate :: Date
  totalHours :: real
  dailySummaries :: "DailySummary list"
  projectTotals :: "ProjectTime list"
  categoryTotals :: "CategoryTime list"

text \<open>The fields of \<^verbatim>\<open>TrackerConfig\<close> that the modelled functions read.\<close>

record TrackerConfig =
  idleThresholdSeconds :: int
  excludedApps :: "string list"
  llmProvider :: string
  llmProxyUrl :: "string option"

subsection \<open>JavaScript \<^verbatim>\<open>Map\<close>: keys in insertion order\<close>

type_synonym ('k, 'v) Map = "('k \<times> 'v) list"

definition Map_get :: "('k, 'v) Map \<Rightarrow> 'k \<Rightarrow> 'v option" where
  "Map_get m k = map_of m k"

fun Map_set :: "'k \<Rightarrow> 'v \<Rightarrow> ('k, 'v) Map \<Rightarrow> ('k, 'v) Map" where
  "Map_set k v [] = [(k, v)]"
| "Map_set k v ((k', v') # m) =
     (if k' = k then (k, v) # m else (k', v') # Map_set k v m)"

subsection \<open>The entry store (\<^verbatim>\<open>storage/database.ts\<close>)\<close>

text \<open>
  The table \<^verbatim>\<open>time_entries\<close>: its rows in rowid order, and the counter of
  \<^verbatim>\<open>AUTOINCREMENT\<close> (the largest rowid ever assigned).
\<close>

record Database =
  rows :: "TimeEntry list"
  seq :: nat

definition initDatabase :: Database where
  "initDatabase = \<lparr>rows = [], seq = 0\<rparr>"

text \<open>The row that \<^verbatim>\<open>INSERT\<close> stores for an entry, with the rowid it is given.\<close>

definition rowOf :: "TimeEntryData \<Rightarrow> nat \<Rightarrow> TimeEntry" where
  "rowOf entry rowid =
     \<lparr>timestamp = timestamp entry, appName = appName entry,
      windowTitle = windowTitle entry, screenshotPath = screenshotPath entry,
      taskDescription = taskDescription entry, projectId = projectId entry,
      manualProjectId = manualProjectId entry,
      durationSeconds = durationSeconds entry, isIdle = isIdle entry,
      aiAnalysis = aiAnalysis entry, id_entry = rowid\<rparr>"

definition insertTimeEntry :: "TimeEntryData \<Rightarrow> Database \<Rightarrow> nat \<times> Database" where
  "insertTimeEntry entry db =
     (let lastInsertRowid = seq db + 1
      in (lastInsertRowid,
          \<lparr>rows = rows db @ [rowOf entry lastInsertRowid], seq = lastInsertRowid\<rparr>))"

text \<open>
  \<^verbatim>\<open>SELECT id, timestamp FROM time_entries ORDER BY timestamp DESC LIMIT 1\<close>: a row with
  the greatest timestamp. SQL leaves the choice among equal timestamps open; the model
  takes the row inserted last, which is what a backward scan of the index on
  \<^verbatim>\<open>timestamp\<close> yields.
\<close>

fun lastEntry :: "TimeEntry list \<Rightarrow> TimeEntry option" where
  "lastEntry [] = None"
| "lastEntry (r # rs) =
     (case lastEntry rs of
        None \<Rightarrow> Some r
      | Some m \<Rightarrow> if timestamp r \<le> timestamp m then Some m else Some r)"

definition updatePreviousEntryDuration :: "Date \<Rightarrow> Database \<Rightarrow> Database" where
  "updatePreviousEntryDuration currentTimestamp db =
     (case lastEntry (rows db) of
        None \<Rightarrow> db
      | Some lastE \<Rightarrow>
          (let secs = (currentTimestamp - timestamp lastE) div 1000
           in db\<lparr>rows := map (\<lambda>r. if id_entry r = id_entry lastE
                                    then r\<lparr>durationSeconds := Some secs\<rparr> else r)
                              (rows db)\<rparr>))"

text \<open>
  \<^verbatim>\<open>if (projectId)\<close> adds the condition only for a string that is neither undefined nor
  empty. In SQL a comparison with NULL is not true, so a NULL column never matches.
  SQL leaves the order of rows with equal timestamps open; the model keeps them in
  rowid order.
\<close>

definition getTimeEntries :: "Date \<Rightarrow> Date \<Rightarrow> string option \<Rightarrow> Database \<Rightarrow> TimeEntry list" where
  "getTimeEntries startDate endDate projectFilter db =
     sort_key timestamp
       (filter (\<lambda>r. startDate \<le> timestamp r \<and> timestamp r < endDate \<and>
                     (case projectFilter of
                        None \<Rightarrow> True
                      | Some p \<Rightarrow> p = [] \<or> projectId r = Some p \<or> manualProjectId r = Some p))
          (rows db))"

definition updateEntryAnalysis ::
    "nat \<Rightarrow> string \<Rightarrow> string option \<Rightarrow> string \<Rightarrow> Database \<Rightarrow> Database" where
  "updateEntryAnalysis entryId taskDesc projId analysis db =
     db\<lparr>rows := map (\<lambda>r. if id_entry r = entryId
                          then r\<lparr>taskDescription := Some taskDesc, projectId := projId,
                                 aiAnalysis := Some analysis\<rparr>
                          else r)
                    (rows db)\<rparr>"

subsection \<open>Daily summary (\<^verbatim>\<open>getDailySummary\<close>)\<close>

record Bucket =
  seconds :: int
  entries :: int

text \<open>The local variables of \<^verbatim>\<open>getDailySummary\<close> that its loop updates or reads.\<close>

record SummaryVars =
  totalTrackedSeconds_v :: int
  idleSeconds_v :: int
  activeSeconds_v :: int
  projectMap :: "(string, Bucket) Map"
  categoryMap :: "(WorkCategory, Bucket) Map"
  appMap :: "(string, Bucket) Map"

text \<open>\<^verbatim>\<open>entry.manualProjectId ?? entry.projectId ?? "unassigned"\<close>\<close>

definition effectiveProjectId :: "TimeEntry \<Rightarrow> string" where
  "effectiveProjectId entry =
     (case manualProjectId entry of
        Some m \<Rightarrow> m
      | None \<Rightarrow> (case projectId entry of Some p \<Rightarrow> p | None \<Rightarrow> ''unassigned''))"

definition addToBucket :: "'k \<Rightarrow> int \<Rightarrow> ('k, Bucket) Map \<Rightarrow> ('k, Bucket) Map" where
  "addToBucket k duration m =
     (let data = (case Map_get m k of Some b \<Rightarrow> b | None \<Rightarrow> \<lparr>seconds = 0, entries = 0\<rparr>)
      in Map_set k \<lparr>seconds = seconds data + duration, entries = entries data + 1\<rparr> m)"

text \<open>One turn of the loop. The body has no statement that writes \<open>categoryMap\<close>.\<close>

definition summaryStep :: "SummaryVars \<Rightarrow> TimeEntry \<Rightarrow> SummaryVars" where
  "summaryStep v entry =
     (let duration = (case durationSeconds entry of Some d \<Rightarrow> d | None \<Rightarrow> 0);
          v1 = v\<lparr>totalTrackedSeconds_v := totalTrackedSeconds_v v + duration\<rparr>
      in if isIdle entry
         then v1\<lparr>idleSeconds_v := idleSeconds_v v1 + duration\<rparr>
         else v1\<lparr>activeSeconds_v := activeSeconds_v v1 + duration,
                 projectMap := addToBucket (effectiveProjectId entry) duration (projectMap v1),
                 appMap := addToBucket (appName entry) duration (appMap v1)\<rparr>)"

definition summaryInit :: SummaryVars where
  "summaryInit = \<lparr>totalTrackedSeconds_v = 0, idleSeconds_v = 0, activeSeconds_v = 0,
                  projectMap = [], categoryMap = [], appMap = []\<rparr>"

definition getDailySummary :: "int \<Rightarrow> Date \<Rightarrow> Database \<Rightarrow> DailySummary" where
  "getDailySummary tza d db =
     (let startOfDay = setHours tza d 0 0 0 0;
          endOfDay = setDate tza startOfDay (getDate tza startOfDay + 1);
          es = getTimeEntries startOfDay endOfDay None db;
          v = foldl summaryStep summaryInit es
      in \<lparr>date = startOfDay,
          totalTrackedSeconds = totalTrackedSeconds_v v,
          idleSeconds = idleSeconds_v v,
          activeSeconds = activeSeconds_v v,
          projectBreakdown =
            map (\<lambda>(k, data). \<lparr>projectId_p = k, projectName = k,
                               seconds_p = seconds data, entries_p = entries data\<rparr>)
              (projectMap v),
          categoryBreakdown =
            map (\<lambda>(k, data). \<lparr>category_c = k, seconds_c = seconds data,
                               entries_c = entries data\<rparr>)
              (categoryMap v),
          topApps =
            take 10
              (sort_key (\<lambda>a. - seconds_a a)
                 (map (\<lambda>(k, data). \<lparr>appName_a = k, seconds_a = seconds data,
                                    entries_a = entries data\<rparr>)
                    (appMap v)))\<rparr>)"

text \<open>
  For stating what the summary adds up: the entries that \<^verbatim>\<open>getDailySummary\<close> loads for
  a date, and the number it adds for an entry, \<^verbatim>\<open>entry.durationSeconds ?? 0\<close>.
\<close>

definition entriesOfDay :: "int \<Rightarrow> Date \<Rightarrow> Database \<Rightarrow> TimeEntry list" where
  "entriesOfDay tza d db =
     (let startOfDay = setHours tza d 0 0 0 0;
          endOfDay = setDate tza startOfDay (getDate tza startOfDay + 1)
      in getTimeEntries startOfDay endOfDay None db)"

definition durationOrZero :: "TimeEntry \<Rightarrow> int" where
  "durationOrZero entry = (case durationSeconds entry of Some d \<Rightarrow> d | None \<Rightarrow> 0)"

subsection \<open>Idle detection (\<^verbatim>\<open>capture/idle.ts\<close>)\<close>

text \<open>
  The reading of the idle-seconds probe (\<^verbatim>\<open>getIdleTime\<close>, which catches its own
  failures and then returns 0) is an input. The field \<^verbatim>\<open>checkedAt\<close> of \<^verbatim>\<open>IdleState\<close>,
  which nothing reads, is left out.
\<close>

record IdleState =
  isIdle_s :: bool
  idleSeconds_s :: int

definition checkIdleState :: "TrackerConfig \<Rightarrow> int \<Rightarrow> IdleState" where
  "checkIdleState config idleSecs =
     \<lparr>isIdle_s = (idleSecs \<ge> idleThresholdSeconds config), idleSeconds_s = idleSecs\<rparr>"

text \<open>
  The closure state of \<^verbatim>\<open>createIdleWatcher\<close>: the variable \<^verbatim>\<open>wasIdle\<close>, and the calls of
  \<^verbatim>\<open>onIdleChange\<close> made so far, oldest first, each with its two arguments.
\<close>

record Watcher =
  wasIdle :: bool
  calls :: "(bool \<times> int) list"

definition createIdleWatcher :: Watcher where
  "createIdleWatcher = \<lparr>wasIdle = False, calls = []\<rparr>"

definition check :: "TrackerConfig \<Rightarrow> Watcher \<Rightarrow> int \<Rightarrow> Watcher" where
  "check config w idleSecs =
     (let state = checkIdleState config idleSecs
      in if isIdle_s state \<noteq> wasIdle w
         then w\<lparr>wasIdle := isIdle_s state,
                calls := calls w @ [(isIdle_s state, idleSeconds_s state)]\<rparr>
         else w)"

definition runChecks :: "TrackerConfig \<Rightarrow> int list \<Rightarrow> Watcher" where
  "runChecks config readings = foldl (check config) createIdleWatcher readings"

subsection \<open>Exclusion list (\<^verbatim>\<open>capture/window.ts\<close>)\<close>

definition toLowerCase :: "string \<Rightarrow> string" where
  "toLowerCase s =
     map (\<lambda>c. if (65::nat) \<le> of_char c \<and> of_char c \<le> (90::nat)
               then char_of (of_char c + (32::nat)) else c) s"

fun includes_s :: "string \<Rightarrow> string \<Rightarrow> bool" where
  "includes_s [] sub = (sub = [])"
| "includes_s (c # s) sub = (take (length sub) (c # s) = sub \<or> includes_s s sub)"

definition shouldExcludeWindow :: "WindowInfo \<Rightarrow> TrackerConfig \<Rightarrow> bool" where
  "shouldExcludeWindow windowInfo config =
     (let appNameLower = toLowerCase (appName_w windowInfo)
      in list_ex (\<lambda>excludedApp. includes_s appNameLower (toLowerCase excludedApp))
           (excludedApps config))"

text \<open>\<^verbatim>\<open>categorizeApp\<close>: the application category that the capture cycle passes on.\<close>

definition categorizeApp :: "string \<Rightarrow> string" where
  "categorizeApp app =
     (let name = toLowerCase app
      in if includes_s name ''chrome'' \<or> includes_s name ''firefox'' \<or>
            includes_s name ''safari'' \<or> includes_s name ''edge'' \<or>
            includes_s name ''brave'' \<or> includes_s name ''arc''
         then ''browser''
         else if includes_s name ''code'' \<or> includes_s name ''sublime'' \<or>
            includes_s name ''atom'' \<or> includes_s name ''vim'' \<or>
            includes_s name ''nvim'' \<or> includes_s name ''emacs'' \<or>
            includes_s name ''xcode'' \<or> includes_s name ''intellij'' \<or>
            includes_s name ''webstorm'' \<or> includes_s name ''pycharm'' \<or>
            includes_s name ''cursor''
         then ''editor''
         else if includes_s name ''terminal'' \<or> includes_s name ''iterm'' \<or>
            includes_s name ''warp'' \<or> includes_s name ''kitty'' \<or>
            includes_s name ''alacritty'' \<or> includes_s name ''hyper''
         then ''terminal''
         else if includes_s name ''slack'' \<or> includes_s name ''discord'' \<or>
            includes_s name ''teams'' \<or> includes_s name ''zoom'' \<or>
            includes_s name ''meet'' \<or> includes_s name ''mail'' \<or>
            includes_s name ''outlook'' \<or> includes_s name ''messages''
         then ''communication''
         else if includes_s name ''figma'' \<or> includes_s name ''sketch'' \<or>
            includes_s name ''photoshop'' \<or> includes_s name ''illustrator'' \<or>
            includes_s name ''affinity'' \<or> includes_s name ''canva''
         then ''design''
         else ''other'')"

subsection \<open>The capture cycle (\<^verbatim>\<open>captureAndAnalyze\<close> in \<^verbatim>\<open>index.ts\<close>)\<close>

text \<open>
  What the probes return in one cycle: the idle seconds, the active window (or null),
  and the path of the screenshot (\<open>None\<close> when \<^verbatim>\<open>captureScreenshot\<close> throws, which the
  cycle catches and turns into a null path).
\<close>

record Probes =
  idleTime :: int
  activeWindow :: "WindowInfo option"
  screenshotFile :: "string option"

text \<open>
  The cycle returns the id of the entry it inserted, or \<open>None\<close> when it skipped. The
  classification that it starts without awaiting it writes to the store later, in
  \<^verbatim>\<open>updateEntryAnalysis\<close>: that is a separate event below.
\<close>

definition captureAndAnalyze ::
    "TrackerConfig \<Rightarrow> Date \<Rightarrow> Probes \<Rightarrow> Database \<Rightarrow> nat option \<times> Database" where
  "captureAndAnalyze config now p db =
     (let idleState = checkIdleState config (idleTime p)
      in if isIdle_s idleState then (None, db)
         else case activeWindow p of
                None \<Rightarrow> (None, db)
              | Some windowInfo \<Rightarrow>
                  if shouldExcludeWindow windowInfo config then (None, db)
                  else
                    (let db1 = updatePreviousEntryDuration now db;
                         (entryId, db2) =
                           insertTimeEntry
                             \<lparr>timestamp = now, appName = appName_w windowInfo,
                              windowTitle = title windowInfo,
                              screenshotPath = screenshotFile p,
                              taskDescription = None, projectId = None,
                              manualProjectId = None, durationSeconds = None,
                              isIdle = False, aiAnalysis = None\<rparr> db1
                     in (Some entryId, db2)))"

text \<open>
  What happens to the store while the tracker runs: a capture cycle at a time \<open>now\<close>, or
  the completion of a classification started by an earlier cycle, which writes a task
  description, a project id and the serialised analysis to the entry with the given id.
\<close>

datatype Event =
  Cycle Date Probes
| AnalysisDone nat string "string option" string

fun step :: "TrackerConfig \<Rightarrow> Database \<Rightarrow> Event \<Rightarrow> Database" where
  "step config db (Cycle now p) = snd (captureAndAnalyze config now p db)"
| "step config db (AnalysisDone entryId taskDesc projId analysis) =
     updateEntryAnalysis entryId taskDesc projId analysis db"

definition run :: "TrackerConfig \<Rightarrow> Event list \<Rightarrow> Database" where
  "run config evs = foldl (step config) initDatabase evs"

fun cycleTimes :: "Event list \<Rightarrow> Date list" where
  "cycleTimes [] = []"
| "cycleTimes (Cycle now p # evs) = now # cycleTimes evs"
| "cycleTimes (AnalysisDone entryId taskDesc projId analysis # evs) = cycleTimes evs"

text \<open>
  Appending entries one by one, each after closing the open duration at the new
  entry's timestamp.
\<close>

definition appendEntry :: "Database \<Rightarrow> TimeEntryData \<Rightarrow> Database" where
  "appendEntry db entry =
     snd (insertTimeEntry entry (updatePreviousEntryDuration (timestamp entry) db))"

definition appendAll :: "TimeEntryData list \<Rightarrow> Database" where
  "appendAll es = foldl appendEntry initDatabase es"

subsection \<open>Classification with fallback (\<^verbatim>\<open>agent.ts\<close>)\<close>

datatype 'a outcome = Throws | Returns 'a

text \<open>
  The value of the field \<^verbatim>\<open>category\<close>. \<^verbatim>\<open>createFallbackAnalysis\<close> reads it from an object
  literal, \<^verbatim>\<open>categoryMap[appCategory]\<close>. A key that is not an own property of the literal
  is looked up on \<^verbatim>\<open>Object.prototype\<close>, and what is found there is a function or an
  object, not a category name.
\<close>

datatype CategoryValue =
  CategoryName WorkCategory
| InheritedProperty string

record TaskAnalysis =
  taskDescription_t :: string
  suggestedProjectId :: "string option"
  confidence :: real
  category :: CategoryValue
  notes_t :: "string option"

text \<open>The fields of the object that \<^verbatim>\<open>JSON.parse\<close> returns, each possibly missing.\<close>

record ParsedAnalysis =
  taskDescription_j :: "string option"
  suggestedProjectId_j :: "string option"
  confidence_j :: "real option"
  category_j :: "string option"
  notes_j :: "string option"

definition validCategories :: "WorkCategory list" where
  "validCategories =
     [''coding'', ''communication'', ''research'', ''documentation'', ''meeting'',
      ''design'', ''admin'', ''break'', ''other'']"

definition validateCategory :: "string option \<Rightarrow> WorkCategory" where
  "validateCategory c =
     (case c of
        None \<Rightarrow> ''other''
      | Some s \<Rightarrow> if s \<noteq> [] \<and> s \<in> set validCategories then s else ''other'')"

definition objectPrototypeProperties :: "string list" where
  "objectPrototypeProperties =
     [''constructor'', ''toString'', ''toLocaleString'', ''valueOf'', ''hasOwnProperty'',
      ''isPrototypeOf'', ''propertyIsEnumerable'', ''__proto__'', ''__defineGetter__'',
      ''__defineSetter__'', ''__lookupGetter__'', ''__lookupSetter__'']"

definition categoryMap_f :: "(string \<times> WorkCategory) list" where
  "categoryMap_f =
     [(''browser'', ''research''), (''editor'', ''coding''), (''terminal'', ''coding''),
      (''communication'', ''communication''), (''design'', ''design''),
      (''other'', ''other'')]"

text \<open>\<^verbatim>\<open>obj[key]\<close> on an object literal: \<open>None\<close> is \<^verbatim>\<open>undefined\<close>.\<close>

definition getProperty :: "(string \<times> WorkCategory) list \<Rightarrow> string \<Rightarrow> CategoryValue option" where
  "getProperty obj key =
     (case map_of obj key of
        Some v \<Rightarrow> Some (CategoryName v)
      | None \<Rightarrow> if key \<in> set objectPrototypeProperties
                then Some (InheritedProperty key) else None)"

definition createFallbackAnalysis :: "WindowInfo \<Rightarrow> string \<Rightarrow> TaskAnalysis" where
  "createFallbackAnalysis windowInfo appCategory =
     \<lparr>taskDescription_t = ''Working in '' @ appName_w windowInfo,
      suggestedProjectId = None,
      confidence = 3 / 10,
      category = (case getProperty categoryMap_f appCategory of
                    Some v \<Rightarrow> v
                  | None \<Rightarrow> CategoryName ''other''),
      notes_t = Some ''Fallback analysis - AI unavailable''\<rparr>"

text \<open>
  \<open>parseJson\<close> stands for \<^verbatim>\<open>result.match(/\{[\s\S]*?\}/)\<close> followed by \<^verbatim>\<open>JSON.parse\<close> of
  the match: \<open>None\<close> when there is no match or \<^verbatim>\<open>JSON.parse\<close> throws (caught in
  \<^verbatim>\<open>parseAnalysisResult\<close>).
\<close>

definition parseAnalysisResult ::
    "(string \<Rightarrow> ParsedAnalysis option) \<Rightarrow> string \<Rightarrow> WindowInfo \<Rightarrow> string \<Rightarrow> TaskAnalysis" where
  "parseAnalysisResult parseJson result windowInfo appCategory =
     (case parseJson result of
        Some parsed \<Rightarrow>
          \<lparr>taskDescription_t =
             (case taskDescription_j parsed of Some s \<Rightarrow> s | None \<Rightarrow> ''Unknown activity''),
           suggestedProjectId = suggestedProjectId_j parsed,
           confidence = (case confidence_j parsed of Some c \<Rightarrow> c | None \<Rightarrow> 1 / 2),
           category = CategoryName (validateCategory (category_j parsed)),
           notes_t = notes_j parsed\<rparr>
      | None \<Rightarrow> createFallbackAnalysis windowInfo appCategory)"

text \<open>
  The classifier backend: what each of its calls does when it is made. \<open>visionCall\<close> is
  \<^verbatim>\<open>imageToBase64\<close> and \<^verbatim>\<open>callLLMProxy\<close> with the vision model, \<open>textCall\<close> is
  \<^verbatim>\<open>callLLMProxy\<close> with the text model, \<open>sdkQuery\<close> is the loop over \<^verbatim>\<open>query(...)\<close> of the
  agent SDK. The prompts, which only the backend reads, are not modelled.
\<close>

record Backend =
  visionCall :: "string outcome"
  textCall :: "string outcome"
  sdkQuery :: "string outcome"

text \<open>A string or null used as a condition: true unless null or empty.\<close>

definition truthy :: "string option \<Rightarrow> bool" where
  "truthy s = (case s of None \<Rightarrow> False | Some x \<Rightarrow> x \<noteq> [])"

definition analyzeTaskWithProxy ::
    "(string \<Rightarrow> ParsedAnalysis option) \<Rightarrow> Backend \<Rightarrow> WindowInfo \<Rightarrow> string \<Rightarrow> string option
       \<Rightarrow> TaskAnalysis outcome" where
  "analyzeTaskWithProxy parseJson b windowInfo appCategory screenshot =
     (let textOnly =
            (case textCall b of
               Throws \<Rightarrow> Throws
             | Returns result \<Rightarrow>
                 Returns (parseAnalysisResult parseJson result windowInfo appCategory))
      in if truthy screenshot
         then (case visionCall b of
                 Returns result \<Rightarrow>
                   Returns (parseAnalysisResult parseJson result windowInfo appCategory)
               | Throws \<Rightarrow> textOnly)
         else textOnly)"

definition analyzeTaskWithClaudeSDK ::
    "(string \<Rightarrow> ParsedAnalysis option) \<Rightarrow> Backend \<Rightarrow> WindowInfo \<Rightarrow> string \<Rightarrow> string option
       \<Rightarrow> TaskAnalysis outcome" where
  "analyzeTaskWithClaudeSDK parseJson b windowInfo appCategory screenshot =
     (case sdkQuery b of
        Returns result \<Rightarrow> Returns (parseAnalysisResult parseJson result windowInfo appCategory)
      | Throws \<Rightarrow> Returns (createFallbackAnalysis windowInfo appCategory))"

definition analyzeTask ::
    "TrackerConfig \<Rightarrow> (string \<Rightarrow> ParsedAnalysis option) \<Rightarrow> Backend \<Rightarrow> WindowInfo \<Rightarrow> string
       \<Rightarrow> string option \<Rightarrow> TaskAnalysis outcome" where
  "analyzeTask config parseJson b windowInfo appCategory screenshot =
     (if llmProvider config = ''proxy'' \<and> truthy (llmProxyUrl config)
      then (case analyzeTaskWithProxy parseJson b windowInfo appCategory screenshot of
              Returns a \<Rightarrow> Returns a
            | Throws \<Rightarrow> Returns (createFallbackAnalysis windowInfo appCategory))
      else analyzeTaskWithClaudeSDK parseJson b windowInfo appCategory screenshot)"

subsection \<open>Weekly reports (\<^verbatim>\<open>reports/weekly.ts\<close>)\<close>


record WeekChange =
  hoursChange :: real
  hoursChangePercent :: real
  projectChanges :: "(string, real) Map"

definition calculateWeekChange :: "WeeklyReport \<Rightarrow> WeeklyReport \<Rightarrow> WeekChange" where
  "calculateWeekChange currentWeek previousWeek =
     (let hc = totalHours currentWeek - totalHours previousWeek;
          prevProjectMap =
            foldl (\<lambda>m p. Map_set (projectId_p p) (real_of_int (seconds_p p) / 3600) m) []
              (projectTotals previousWeek)
      in \<lparr>hoursChange = hc,
          hoursChangePercent =
            (if totalHours previousWeek > 0 then hc / totalHours previousWeek * 100 else 0),
          projectChanges =
            foldl (\<lambda>m project.
                     (let prevHours = (case Map_get prevProjectMap (projectId_p project) of
                                         Some h \<Rightarrow> h | None \<Rightarrow> 0);
                          currentHours = real_of_int (seconds_p project) / 3600
                      in Map_set (projectId_p project) (currentHours - prevHours) m))
              [] (projectTotals currentWeek)\<rparr>)"

subsection \<open>Specification of the idle watcher's callbacks\<close>

text \<open>
  Written from the specification, not from the code: the idle predicate of the check
  number \<open>i\<close>, the state before that check (not idle before the first one), and the
  list of the checks at which the two differ, each with the arguments the callback is
  to get.
\<close>

definition idleAt :: "int \<Rightarrow> int list \<Rightarrow> nat \<Rightarrow> bool" where
  "idleAt thr readings i = (thr \<le> readings ! i)"

definition stateBefore :: "int \<Rightarrow> int list \<Rightarrow> nat \<Rightarrow> bool" where
  "stateBefore thr readings i = (if i = 0 then False else idleAt thr readings (i - 1))"

definition transitions :: "int \<Rightarrow> int list \<Rightarrow> (bool \<times> int) list" where
  "transitions thr readings =
     map (\<lambda>i. (idleAt thr readings i, readings ! i))
       (filter (\<lambda>i. idleAt thr readings i \<noteq> stateBefore thr readings i)
          [0..<length readings])"

subsection \<open>Specification of the week-over-week change per project\<close>

text \<open>
  Written from the specification: the hours of a project in a list of project totals,
  0 for a project that is absent. Where a list names a project twice the later item
  counts, as in a \<^verbatim>\<open>Map\<close> built from the list.
\<close>

definition hoursOf :: "ProjectTime list \<Rightarrow> string \<Rightarrow> real" where
  "hoursOf totals k =
     (case find (\<lambda>p. projectId_p p = k) (rev totals) of
        Some p \<Rightarrow> real_of_int (seconds_p p) / 3600
      | None \<Rightarrow> 0)"

subsection \<open>Concrete inputs\<close>

definition emptyReport :: WeeklyReport where
  "emptyReport =
     \<lparr>weekStartDate = 0, weekEndDate = 0, totalHours = 0, dailySummaries = [],
      projectTotals = [], categoryTotals = []\<rparr>"

definition oneProjectReport :: WeeklyReport where
  "oneProjectReport =
     \<lparr>weekStartDate = 0, weekEndDate = 0, totalHours = 1, dailySummaries = [],
      projectTotals = [\<lparr>projectId_p = ''proj-1'', projectName = ''proj-1'',
                        seconds_p = 3600, entries_p = 1\<rparr>],
      categoryTotals = []\<rparr>"

text \<open>
  The three entries of the test ``categoryBreakdown is populated from aiAnalysis'' in
  \<^verbatim>\<open>database.test.ts\<close>, at 12:00, 13:00 and 14:00 of 15 January 2025 (UTC).
\<close>

definition testEntry1 :: TimeEntryData where
  \<open>testEntry1 =
     \<lparr>timestamp = 1736942400000, appName = ''VS Code'', windowTitle = ''index.ts - project'',
      screenshotPath = None, taskDescription = Some ''Writing code'',
      projectId = Some ''test-project'', manualProjectId = None,
      durationSeconds = Some 3600, isIdle = False,
      aiAnalysis = Some ''{"taskDescription":"Writing code","suggestedProjectId":"test-project","confidence":0.9,"category":"coding","notes":null}''\<rparr>\<close>

definition testEntry2 :: TimeEntryData where
  \<open>testEntry2 =
     \<lparr>timestamp = 1736946000000, appName = ''Slack'', windowTitle = ''Team Channel'',
      screenshotPath = None, taskDescription = Some ''Team discussion'',
      projectId = Some ''test-project'', manualProjectId = None,
      durationSeconds = Some 1800, isIdle = False,
      aiAnalysis = Some ''{"taskDescription":"Team discussion","suggestedProjectId":"test-project","confidence":0.85,"category":"communication","notes":null}''\<rparr>\<close>

definition testEntry3 :: TimeEntryData where
  \<open>testEntry3 =
     \<lparr>timestamp = 1736949600000, appName = ''VS Code'', windowTitle = ''app.ts - project'',
      screenshotPath = None, taskDescription = Some ''More coding'',
      projectId = Some ''test-project'', manualProjectId = None,
      durationSeconds = Some 1800, isIdle = False,
      aiAnalysis = Some ''{"taskDescription":"More coding","suggestedProjectId":"test-project","confidence":0.95,"category":"coding","notes":null}''\<rparr>\<close>

definition testDatabase :: Database where
  "testDatabase =
     snd (insertTimeEntry testEntry3
       (snd (insertTimeEntry testEntry2 (snd (insertTimeEntry testEntry1 initDatabase)))))"

text \<open>An entry classified as project B that the user has moved to project A.\<close>

definition overriddenEntry :: TimeEntryData where
  "overriddenEntry =
     \<lparr>timestamp = 1000, appName = ''VS Code'', windowTitle = ''index.ts'',
      screenshotPath = None, taskDescription = Some ''Writing code'',
      projectId = Some ''project-b'', manualProjectId = Some ''project-a'',
      durationSeconds = None, isIdle = False, aiAnalysis = None\<rparr>"

definition someWindow :: WindowInfo where
  "someWindow = \<lparr>appName_w = ''VS Code'', title = ''index.ts'', bundleId = None, pid = 1\<rparr>"

definition someConfig :: TrackerConfig where
  "someConfig =
     \<lparr>idleThresholdSeconds = 300, excludedApps = [''1Password''],
      llmProvider = ''claude-sdk'', llmProxyUrl = None\<rparr>"

text \<open>A classifier backend whose every call throws, and a reader of JSON that finds none.\<close>

definition failingBackend :: Backend where
  "failingBackend = \<lparr>visionCall = Throws, textCall = Throws, sdkQuery = Throws\<rparr>"

definition noJson :: "string \<Rightarrow> ParsedAnalysis option" where
  "noJson result = None"

definition activeProbes :: Probes where
  "activeProbes = \<lparr>idleTime = 0, activeWindow = Some someWindow, screenshotFile = None\<rparr>"

definition idleProbes :: Probes where
  "idleProbes = \<lparr>idleTime = 400, activeWindow = Some someWindow, screenshotFile = None\<rparr>"

subsection \<open>Invariant of the store under the sampler\<close>

text \<open>
  What holds of the store while only the sampler and its classifications write to it,
  with cycle times that increase: timestamps and ids increase along the rows, the ids
  stay within the counter, every row but the last has a duration, which is not
  negative, the last row has none, and no row is idle.
\<close>

definition store_inv :: "Database \<Rightarrow> bool" where
  "store_inv db =
     (sorted_wrt (<) (map timestamp (rows db)) \<and>
      sorted_wrt (<) (map id_entry (rows db)) \<and>
      list_all (\<lambda>r. id_entry r \<le> seq db) (rows db) \<and>
      list_all (\<lambda>r. case durationSeconds r of Some d \<Rightarrow> 0 \<le> d | None \<Rightarrow> False)
        (butlast (rows db)) \<and>
      (rows db \<noteq> [] \<longrightarrow> durationSeconds (last (rows db)) = None))"

text \<open>
  The same with cycle times that do not decrease: two cycles may read the same time,
  and then the timestamps along the rows do not decrease.
\<close>

definition store_inv_le :: "Database \<Rightarrow> bool" where
  "store_inv_le db =
     (sorted (map timestamp (rows db)) \<and>
      sorted_wrt (<) (map id_entry (rows db)) \<and>
      list_all (\<lambda>r. id_entry r \<le> seq db) (rows db) \<and>
      list_all (\<lambda>r. case durationSeconds r of Some d \<Rightarrow> 0 \<le> d | None \<Rightarrow> False)
        (butlast (rows db)) \<and>
      (rows db \<noteq> [] \<longrightarrow> durationSeconds (last (rows db)) = None))"

subsection \<open>Specification of the durations after a sequence of appends\<close>

text \<open>
  Written from the specification: the row expected at position \<open>i\<close> (from 0) after the
  entries \<open>es\<close> have been appended to the empty store, each after closing the open
  duration at its own timestamp. Its id is \<open>i + 1\<close>; its duration is the whole seconds
  up to the next entry, and for the last entry it is what was inserted.
\<close>

definition expectedRow :: "TimeEntryData list \<Rightarrow> nat \<Rightarrow> TimeEntry" where
  "expectedRow es i =
     (rowOf (es ! i) (Suc i))
       \<lparr>durationSeconds :=
          (if Suc i < length es
           then Some ((timestamp (es ! Suc i) - timestamp (es ! i)) div 1000)
           else durationSeconds (es ! i))\<rparr>"

text \<open>
  A run of the tracker: a capture at 1 s, an idle cycle at 2 s, the classification of
  the first entry, a capture at 61 s. And a run whose second cycle reads a clock that
  was set back by five seconds.
\<close>

definition sampleEvents :: "Event list" where
  \<open>sampleEvents =
     [Cycle 1000 activeProbes, Cycle 2000 idleProbes,
      AnalysisDone 1 ''Writing code'' None ''{"category":"coding"}'',
      Cycle 61000 activeProbes]\<close>

definition skewedEvents :: "Event list" where
  "skewedEvents = [Cycle 5000 activeProbes, Cycle 0 activeProbes]"

definition sampleEntries :: "TimeEntryData list" where
  "sampleEntries =
     [overriddenEntry, overriddenEntry\<lparr>timestamp := 2500\<rparr>, overriddenEntry\<lparr>timestamp := 4000\<rparr>]"

section \<open>Verification\<close>

subsection \<open>Idle watcher\<close>

lemma runChecks_snoc:
  "runChecks config (xs @ [x]) = check config (runChecks config xs) x"
  by (simp add: runChecks_def)

lemma wasIdle_check:
  "wasIdle (check config w x) = (idleThresholdSeconds config \<le> x)"
  by (auto simp: check_def checkIdleState_def Let_def)

lemma wasIdle_runChecks:
  "wasIdle (runChecks config xs) = stateBefore (idleThresholdSeconds config) (xs @ [x]) (length xs)"
proof (cases xs rule: rev_cases)
  case Nil
  then show ?thesis by (simp add: runChecks_def createIdleWatcher_def stateBefore_def)
next
  case (snoc ys y)
  then show ?thesis
    by (simp add: runChecks_snoc wasIdle_check stateBefore_def idleAt_def nth_append)
qed

lemma transitions_snoc:
  "transitions thr (xs @ [x]) =
     transitions thr xs @
       (if (thr \<le> x) \<noteq> stateBefore thr (xs @ [x]) (length xs) then [(thr \<le> x, x)] else [])"
proof -
  let ?P' = "\<lambda>i. idleAt thr (xs @ [x]) i \<noteq> stateBefore thr (xs @ [x]) i"
  let ?F' = "\<lambda>i. (idleAt thr (xs @ [x]) i, (xs @ [x]) ! i)"
  let ?P = "\<lambda>i. idleAt thr xs i \<noteq> stateBefore thr xs i"
  let ?F = "\<lambda>i. (idleAt thr xs i, xs ! i)"
  have a: "\<And>i. i < length xs \<Longrightarrow> idleAt thr (xs @ [x]) i = idleAt thr xs i"
    by (simp add: idleAt_def nth_append)
  have b: "\<And>i. i < length xs \<Longrightarrow> stateBefore thr (xs @ [x]) i = stateBefore thr xs i"
    by (auto simp: stateBefore_def idleAt_def nth_append)
  have f: "filter ?P' [0..<length xs] = filter ?P [0..<length xs]"
    by (rule filter_cong) (simp_all add: a b)
  have m: "map ?F' (filter ?P [0..<length xs]) = map ?F (filter ?P [0..<length xs])"
    by (rule map_cong) (simp_all add: a nth_append)
  have split: "[0..<length (xs @ [x])] = [0..<length xs] @ [length xs]"
    by simp
  have whole: "transitions thr (xs @ [x]) =
      map ?F' (filter ?P' [0..<length xs]) @ map ?F' (filter ?P' [length xs])"
    unfolding transitions_def split filter_append map_append ..
  have old: "map ?F' (filter ?P' [0..<length xs]) = transitions thr xs"
    unfolding transitions_def f by (rule m)
  have new: "map ?F' (filter ?P' [length xs]) =
      (if (thr \<le> x) \<noteq> stateBefore thr (xs @ [x]) (length xs) then [(thr \<le> x, x)] else [])"
    by (simp add: idleAt_def)
  show ?thesis
    unfolding whole old new ..
qed

lemma calls_runChecks:
  "calls (runChecks config readings) = transitions (idleThresholdSeconds config) readings"
proof (induction readings rule: rev_induct)
  case Nil
  then show ?case by (simp add: runChecks_def createIdleWatcher_def transitions_def)
next
  case (snoc x xs)
  have w: "wasIdle (runChecks config xs) = stateBefore (idleThresholdSeconds config) (xs @ [x]) (length xs)"
    by (rule wasIdle_runChecks)
  show ?case
    using snoc.IH w
    by (simp add: runChecks_snoc transitions_snoc check_def checkIdleState_def Let_def)
qed

text \<open>
  Claim C9. For every list of idle-seconds readings and every threshold, the calls of the
  callback are exactly the checks at which the predicate \<open>idleSeconds \<ge> threshold\<close>
  differs from its value at the check before (not idle before the first check), in
  order and with the arguments \<open>(isIdle, idleSeconds)\<close>: one call per transition, none on
  a check that repeats the state. For the readings 0, 0, 400, 400, 0 and the threshold
  300 there are two calls, the first with \<open>isIdle = True\<close>, the second with
  \<open>isIdle = False\<close>.
\<close>

theorem idle_watcher_once_per_transition:
  "calls (runChecks config readings) = transitions (idleThresholdSeconds config) readings
   \<and> calls (runChecks (config\<lparr>idleThresholdSeconds := 300\<rparr>) [0, 0, 400, 400, 0])
       = [(True, 400), (False, 0)]"
proof (intro conjI)
  show "calls (runChecks config readings) = transitions (idleThresholdSeconds config) readings"
    by (rule calls_runChecks)
  show "calls (runChecks (config\<lparr>idleThresholdSeconds := 300\<rparr>) [0, 0, 400, 400, 0])
          = [(True, 400), (False, 0)]"
    by (simp add: runChecks_def check_def checkIdleState_def createIdleWatcher_def Let_def)
qed

subsection \<open>Calendar\<close>

lemma div_lower: "0 < k \<Longrightarrow> k * (a div k) \<le> (a::int)"
  by (metis mult.commute div_mult_mod_eq le_add_same_cancel1 pos_mod_sign) 

lemma div_upper: "0 < k \<Longrightarrow> (a::int) < k * (a div k) + k"
proof -
  assume "0 < k"
  then have "a mod k < k"
    by simp
  moreover have "a = k * (a div k) + a mod k"
    by simp
  ultimately show ?thesis
    by linarith
qed

lemma year_lower_arith:
  fixes n d a b c :: int
  assumes "146097 * n \<le> 400 * d" and "4 * a \<le> n" and "n + 68 < 100 * b + 100"
    and "400 * c \<le> n + 368"
  shows "365 * (n - 1) + a - b + c \<le> d"
  using assms by (simp add: algebra_simps)

lemma year_upper_arith:
  fixes n d a b c :: int
  assumes "400 * d < 146097 * n + 146097" and "n + 3 < 4 * a + 4" and "100 * b \<le> n + 71"
    and "n + 371 < 400 * c + 400"
  shows "d < 365 * (n + 2) + a - b + c"
  using assms by (simp add: algebra_simps)

text \<open>
  \<open>YearFromTime\<close> is what ECMAScript defines: the year in which the day lies, that is
  the largest year that starts on or before it.
\<close>

lemma YearFromTime_characterised:
  "DayFromYear (YearFromTime t) \<le> Day t \<and> Day t < DayFromYear (YearFromTime t + 1)"
proof -
  define d where "d = Day t"
  define n where "n = (400 * d) div 146097"
  have n1: "146097 * n \<le> 400 * d"
    unfolding n_def by (rule div_lower) simp
  have n2: "400 * d < 146097 * n + 146097"
    unfolding n_def by (rule div_upper) simp
  define a b c where "a = n div 4" and "b = (n + 68) div 100" and "c = (n + 368) div 400"
  define a' b' c' where "a' = (n + 3) div 4" and "b' = (n + 71) div 100"
    and "c' = (n + 371) div 400"
  have lo_eq: "DayFromYear (1970 + n - 1) = 365 * (n - 1) + a - b + c"
    by (simp add: DayFromYear_def add.commute a_def b_def c_def)
  have hi_eq: "DayFromYear (1970 + n + 2) = 365 * (n + 2) + a' - b' + c'"
    by (simp add: DayFromYear_def add.commute a'_def b'_def c'_def)
  have q1: "4 * a \<le> n"
    unfolding a_def by (rule div_lower) simp
  have q2: "n + 68 < 100 * b + 100"
    unfolding b_def by (rule div_upper) simp
  have q3: "400 * c \<le> n + 368"
    unfolding c_def by (rule div_lower) simp
  have r1: "n + 3 < 4 * a' + 4"
    unfolding a'_def by (rule div_upper) simp
  have r2: "100 * b' \<le> n + 71"
    unfolding b'_def by (rule div_lower) simp
  have r3: "n + 371 < 400 * c' + 400"
    unfolding c'_def by (rule div_upper) simp
  have lo: "DayFromYear (1970 + n - 1) \<le> d"
    unfolding lo_eq using n1 q1 q2 q3 by (rule year_lower_arith)
  have hi: "d < DayFromYear (1970 + n + 2)"
    unfolding hi_eq using n2 r1 r2 r3 by (rule year_upper_arith)
  have eq: "1970 + n - 1 + 1 = 1970 + n" "1970 + n + 1 + 1 = 1970 + n + 2"
    by simp_all
  show ?thesis
    using lo hi unfolding YearFromTime_def Let_def d_def [symmetric] n_def [symmetric]
    by (auto simp: eq)
qed

lemma div_succ:
  fixes a k :: int
  assumes "0 < k"
  shows "(a + 1) div k = a div k + (if (a + 1) mod k = 0 then 1 else 0)"
proof -
  define q r where "q = a div k" and "r = a mod k"
  have a: "a = k * q + r" and r0: "0 \<le> r" and rk: "r < k"
    using assms by (simp_all add: q_def r_def)
  show ?thesis
  proof (cases "r + 1 = k")
    case True
    then have "a + 1 = k * (q + 1) + 0"
      using a by (simp add: algebra_simps)
    then have "(a + 1) div k = q + 1" and "(a + 1) mod k = 0"
      using assms by (simp_all only: div_mult_self4 mod_mult_self4) simp_all
    then show ?thesis
      by (simp add: q_def)
  next
    case False
    then have lt: "r + 1 < k"
      using rk by simp
    have eq: "a + 1 = k * q + (r + 1)"
      using a by simp
    have "(a + 1) div k = q"
      using eq by (rule int_div_pos_eq) (use r0 lt in simp_all)
    moreover have "(a + 1) mod k = r + 1"
      using eq by (rule int_mod_pos_eq) (use r0 lt in simp_all)
    ultimately show ?thesis
      using r0 by (simp add: q_def)
  qed
qed

lemma mod_shift:
  fixes y :: int
  shows "(y - 1968) mod 4 = y mod 4" and "(y - 1900) mod 100 = y mod 100"
    and "(y - 1600) mod 400 = y mod 400"
proof -
  have "(y + (- 492) * 4) mod 4 = y mod 4"
    by (rule mod_mult_self1)
  then show "(y - 1968) mod 4 = y mod 4"
    by simp
  have "(y + (- 19) * 100) mod 100 = y mod 100"
    by (rule mod_mult_self1)
  then show "(y - 1900) mod 100 = y mod 100"
    by simp
  have "(y + (- 4) * 400) mod 400 = y mod 400"
    by (rule mod_mult_self1)
  then show "(y - 1600) mod 400 = y mod 400"
    by simp
qed

text \<open>The start of the next year is \<open>DaysInYear\<close> later.\<close>

lemma DayFromYear_step: "DayFromYear (y + 1) = DayFromYear y + DaysInYear y"
proof -
  have a: "(y + 1 - 1969) div 4 = (y - 1969) div 4 + (if y mod 4 = 0 then 1 else 0)"
    using div_succ [of 4 "y - 1969"] mod_shift(1) [of y] by (simp add: algebra_simps)
  have b: "(y + 1 - 1901) div 100 = (y - 1901) div 100 + (if y mod 100 = 0 then 1 else 0)"
    using div_succ [of 100 "y - 1901"] mod_shift(2) [of y] by (simp add: algebra_simps)
  have c: "(y + 1 - 1601) div 400 = (y - 1601) div 400 + (if y mod 400 = 0 then 1 else 0)"
    using div_succ [of 400 "y - 1601"] mod_shift(3) [of y] by (simp add: algebra_simps)
  have "(y mod 100) mod 4 = y mod 4" and "(y mod 400) mod 100 = y mod 100"
    by (simp_all add: mod_mod_cancel)
  then have d: "y mod 100 = 0 \<Longrightarrow> y mod 4 = 0" and e: "y mod 400 = 0 \<Longrightarrow> y mod 100 = 0"
    by auto
  show ?thesis
    unfolding DayFromYear_def a b c using d e by (auto simp: DaysInYear_def)
qed

lemma DaysInYear_pos: "0 < DaysInYear y"
  by (simp add: DaysInYear_def)

lemma DayFromYear_mono: "y \<le> z \<Longrightarrow> DayFromYear y \<le> DayFromYear z"
proof (induction z rule: int_ge_induct)
  case base
  show ?case by simp
next
  case (step z)
  then show ?case
    using DaysInYear_pos [of z] by (simp add: DayFromYear_step)
qed

lemma YearFromTime_largest:
  assumes "DayFromYear y \<le> Day t"
  shows "y \<le> YearFromTime t"
proof (rule ccontr)
  assume "\<not> y \<le> YearFromTime t"
  then have "YearFromTime t + 1 \<le> y"
    by simp
  then have "DayFromYear (YearFromTime t + 1) \<le> DayFromYear y"
    by (rule DayFromYear_mono)
  with YearFromTime_characterised [of t] assms show False
    by simp
qed

subsection \<open>Start of the week\<close>

























subsection \<open>Week-over-week change\<close>

lemma Map_get_Map_set:
  "Map_get (Map_set k v m) k' = (if k' = k then Some v else Map_get m k')"
  by (induction m) (auto simp: Map_get_def)

lemma Map_get_Nil: "Map_get [] k = None"
  by (simp add: Map_get_def)

lemma Map_get_foldl_Map_set:
  "Map_get (foldl (\<lambda>m p. Map_set (key p) (val p) m) m0 ps) k =
     (case find (\<lambda>p. key p = k) (rev ps) of
        Some p \<Rightarrow> Some (val p)
      | None \<Rightarrow> Map_get m0 k)"
  by (induction ps rule: rev_induct) (auto simp: Map_get_Map_set)

lemma find_None_image: "(find (\<lambda>p. f p = k) xs = None) = (k \<notin> f ` set xs)"
  by (auto simp: find_None_iff)

lemma find_Some_key: "find (\<lambda>p. f p = k) xs = Some p \<Longrightarrow> f p = k"
  by (auto simp: find_Some_iff)

text \<open>
  Claim C7, as amended. \<open>calculateWeekChange\<close> maps every project of the current
  report to its current hours minus its previous hours, with 0 previous hours for a
  project that the previous report does not have; a project that is not in the current
  report has no entry in the map.
\<close>

theorem projectChanges_current_projects:
  "Map_get (projectChanges (calculateWeekChange currentWeek previousWeek)) k =
     (if k \<in> projectId_p ` set (projectTotals currentWeek)
      then Some (hoursOf (projectTotals currentWeek) k - hoursOf (projectTotals previousWeek) k)
      else None)"
proof (cases "find (\<lambda>p. projectId_p p = k) (rev (projectTotals currentWeek))")
  case None
  then have "k \<notin> projectId_p ` set (projectTotals currentWeek)"
    by (simp add: find_None_image)
  with None show ?thesis
    by (simp add: calculateWeekChange_def Let_def Map_get_foldl_Map_set Map_get_Nil)
next
  case (Some p)
  then have k: "projectId_p p = k"
    by (rule find_Some_key)
  from Some have "k \<in> projectId_p ` set (projectTotals currentWeek)"
    using find_None_image [of projectId_p k "rev (projectTotals currentWeek)"] by simp
  with Some k show ?thesis
    by (simp add: calculateWeekChange_def Let_def Map_get_foldl_Map_set hoursOf_def
          Map_get_Nil split: option.splits)
qed

text \<open>
  Claim C7 as stated fails: a project of the previous report alone (one hour there, so
  a change of -1) has no entry in the map.
\<close>

theorem projectChanges_previous_only_counterexample:
  "Map_get (projectChanges (calculateWeekChange emptyReport oneProjectReport)) ''proj-1'' = None
   \<and> hoursOf (projectTotals emptyReport) ''proj-1''
       - hoursOf (projectTotals oneProjectReport) ''proj-1'' = - 1"
  by (simp add: calculateWeekChange_def emptyReport_def oneProjectReport_def Map_get_def
        hoursOf_def Let_def)

theorem projectChanges_current_projects_witness:
  "Map_get (projectChanges (calculateWeekChange oneProjectReport emptyReport)) ''proj-1'' = Some 1
   \<and> Map_get (projectChanges (calculateWeekChange oneProjectReport emptyReport)) ''proj-2'' = None"
  using projectChanges_current_projects [of oneProjectReport emptyReport "''proj-1''"]
    projectChanges_current_projects [of oneProjectReport emptyReport "''proj-2''"]
  by (simp add: emptyReport_def oneProjectReport_def hoursOf_def)

subsection \<open>Classification fallback\<close>

lemma analyzeTask_backend_throws:
  "visionCall b = Throws \<Longrightarrow> textCall b = Throws \<Longrightarrow> sdkQuery b = Throws \<Longrightarrow>
   analyzeTask config parseJson b windowInfo appCategory screenshot
     = Returns (createFallbackAnalysis windowInfo appCategory)"
  by (simp add: analyzeTask_def analyzeTaskWithProxy_def analyzeTaskWithClaudeSDK_def Let_def)

lemma analyzeTask_never_throws:
  "analyzeTask config parseJson b windowInfo appCategory screenshot \<noteq> Throws"
  by (simp add: analyzeTask_def analyzeTaskWithProxy_def analyzeTaskWithClaudeSDK_def Let_def
        split: outcome.splits)

lemma createFallbackAnalysis_own_or_other:
  "appCategory \<notin> set objectPrototypeProperties \<Longrightarrow>
   createFallbackAnalysis windowInfo appCategory =
     \<lparr>taskDescription_t = ''Working in '' @ appName_w windowInfo,
      suggestedProjectId = None,
      confidence = 3 / 10,
      category = CategoryName
        (if appCategory = ''browser'' then ''research''
         else if appCategory = ''editor'' then ''coding''
         else if appCategory = ''terminal'' then ''coding''
         else if appCategory = ''communication'' then ''communication''
         else if appCategory = ''design'' then ''design''
         else ''other''),
      notes_t = Some ''Fallback analysis - AI unavailable''\<rparr>"
  by (simp add: createFallbackAnalysis_def getProperty_def categoryMap_f_def)

lemma categorizeApp_range:
  "categorizeApp app \<in>
     {''browser'', ''editor'', ''terminal'', ''communication'', ''design'', ''other''}"
  by (simp add: categorizeApp_def Let_def)

lemma categorizeApp_not_inherited:
  "categorizeApp app \<notin> set objectPrototypeProperties"
  using categorizeApp_range [of app] by (auto simp: objectPrototypeProperties_def)

text \<open>
  Claim C6. When every call of the classifier backend throws, \<open>analyzeTask\<close> returns
  the fallback analysis: the description \<open>Working in\<close> followed by the application
  name, no suggested project, confidence 0.3, the note
  \<open>Fallback analysis - AI unavailable\<close>, and the category looked up from the
  application category (browser to research, editor and terminal to coding,
  communication to communication, design to design, anything else to other). This
  holds for every application category that is not the name of a property that object
  literals inherit, hence for every result of \<open>categorizeApp\<close>, which is what the
  capture cycle passes. Whatever the backend does, \<open>analyzeTask\<close> does not throw to
  its caller.
\<close>

theorem analyzeTask_fallback_when_backend_throws:
  assumes "visionCall b = Throws" and "textCall b = Throws" and "sdkQuery b = Throws"
    and "appCategory \<notin> set objectPrototypeProperties"
  shows "analyzeTask config parseJson b windowInfo appCategory screenshot =
           Returns
             \<lparr>taskDescription_t = ''Working in '' @ appName_w windowInfo,
              suggestedProjectId = None,
              confidence = 3 / 10,
              category = CategoryName
                (if appCategory = ''browser'' then ''research''
                 else if appCategory = ''editor'' then ''coding''
                 else if appCategory = ''terminal'' then ''coding''
                 else if appCategory = ''communication'' then ''communication''
                 else if appCategory = ''design'' then ''design''
                 else ''other''),
              notes_t = Some ''Fallback analysis - AI unavailable''\<rparr>
       \<and> analyzeTask config parseJson b windowInfo (categorizeApp app) screenshot =
           Returns
             \<lparr>taskDescription_t = ''Working in '' @ appName_w windowInfo,
              suggestedProjectId = None,
              confidence = 3 / 10,
              category = CategoryName
                (if categorizeApp app = ''browser'' then ''research''
                 else if categorizeApp app = ''editor'' then ''coding''
                 else if categorizeApp app = ''terminal'' then ''coding''
                 else if categorizeApp app = ''communication'' then ''communication''
                 else if categorizeApp app = ''design'' then ''design''
                 else ''other''),
              notes_t = Some ''Fallback analysis - AI unavailable''\<rparr>
       \<and> analyzeTask config parseJson anyBackend windowInfo appCategory screenshot \<noteq> Throws"
proof (intro conjI)
  show "analyzeTask config parseJson b windowInfo appCategory screenshot =
           Returns
             \<lparr>taskDescription_t = ''Working in '' @ appName_w windowInfo,
              suggestedProjectId = None,
              confidence = 3 / 10,
              category = CategoryName
                (if appCategory = ''browser'' then ''research''
                 else if appCategory = ''editor'' then ''coding''
                 else if appCategory = ''terminal'' then ''coding''
                 else if appCategory = ''communication'' then ''communication''
                 else if appCategory = ''design'' then ''design''
                 else ''other''),
              notes_t = Some ''Fallback analysis - AI unavailable''\<rparr>"
    unfolding analyzeTask_backend_throws [OF assms(1-3)]
    by (simp only: createFallbackAnalysis_own_or_other [OF assms(4)])
  show "analyzeTask config parseJson b windowInfo (categorizeApp app) screenshot =
           Returns
             \<lparr>taskDescription_t = ''Working in '' @ appName_w windowInfo,
              suggestedProjectId = None,
              confidence = 3 / 10,
              category = CategoryName
                (if categorizeApp app = ''browser'' then ''research''
                 else if categorizeApp app = ''editor'' then ''coding''
                 else if categorizeApp app = ''terminal'' then ''coding''
                 else if categorizeApp app = ''communication'' then ''communication''
                 else if categorizeApp app = ''design'' then ''design''
                 else ''other''),
              notes_t = Some ''Fallback analysis - AI unavailable''\<rparr>"
    unfolding analyzeTask_backend_throws [OF assms(1-3)]
    by (simp only: createFallbackAnalysis_own_or_other [OF categorizeApp_not_inherited])
  show "analyzeTask config parseJson anyBackend windowInfo appCategory screenshot \<noteq> Throws"
    by (rule analyzeTask_never_throws)
qed

lemma failingBackend_throws:
  "visionCall failingBackend = Throws" "textCall failingBackend = Throws"
  "sdkQuery failingBackend = Throws"
  by (simp_all add: failingBackend_def)

lemma editor_not_inherited: "''editor'' \<notin> set objectPrototypeProperties"
  by (simp add: objectPrototypeProperties_def)

lemma categorizeApp_sample: "categorizeApp ''VS Code'' = ''editor''"
  by code_simp

theorem analyzeTask_fallback_when_backend_throws_witness:
  "visionCall failingBackend = Throws \<and> textCall failingBackend = Throws
   \<and> sdkQuery failingBackend = Throws
   \<and> ''editor'' \<notin> set objectPrototypeProperties
   \<and> categorizeApp ''VS Code'' = ''editor''
   \<and> analyzeTask someConfig noJson failingBackend someWindow ''editor'' None =
       Returns
         \<lparr>taskDescription_t = ''Working in VS Code'',
          suggestedProjectId = None,
          confidence = 3 / 10,
          category = CategoryName ''coding'',
          notes_t = Some ''Fallback analysis - AI unavailable''\<rparr>
   \<and> analyzeTask someConfig noJson failingBackend someWindow (categorizeApp ''VS Code'') None =
       Returns
         \<lparr>taskDescription_t = ''Working in VS Code'',
          suggestedProjectId = None,
          confidence = 3 / 10,
          category = CategoryName ''coding'',
          notes_t = Some ''Fallback analysis - AI unavailable''\<rparr>"
  using analyzeTask_fallback_when_backend_throws
          [OF failingBackend_throws editor_not_inherited,
           of someConfig noJson someWindow None "''VS Code''" failingBackend]
    failingBackend_throws editor_not_inherited categorizeApp_sample
  by (simp add: someWindow_def)

text \<open>
  Outside that domain the lookup in the object literal finds the inherited property, so
  the default does not apply. No call in the repository passes such a key.
\<close>

lemma createFallbackAnalysis_inherited_key:
  "category (createFallbackAnalysis windowInfo ''constructor'') = InheritedProperty ''constructor''"
  by (simp add: createFallbackAnalysis_def getProperty_def categoryMap_f_def
        objectPrototypeProperties_def)

subsection \<open>Range queries\<close>

lemma getTimeEntries_set:
  "set (getTimeEntries startDate endDate projectFilter db) =
     {r \<in> set (rows db). startDate \<le> timestamp r \<and> timestamp r < endDate \<and>
        (case projectFilter of
           None \<Rightarrow> True
         | Some p \<Rightarrow> p = [] \<or> projectId r = Some p \<or> manualProjectId r = Some p)}"
  by (auto simp: getTimeEntries_def)

lemma getTimeEntries_sorted:
  "sorted (map timestamp (getTimeEntries startDate endDate projectFilter db))"
  by (simp add: getTimeEntries_def)

text \<open>
  What the query returns for a filter that is not empty: the entries of the range with
  the filter in either project column, in ascending order of timestamp.
\<close>

lemma getTimeEntries_either_project_column:
  assumes "projectFilter \<noteq> []"
  shows "sorted (map timestamp (getTimeEntries startDate endDate (Some projectFilter) db))
       \<and> mset (getTimeEntries startDate endDate (Some projectFilter) db) =
           filter_mset
             (\<lambda>r. startDate \<le> timestamp r \<and> timestamp r < endDate \<and>
                  (projectId r = Some projectFilter \<or> manualProjectId r = Some projectFilter))
             (mset (rows db))"
  using assms by (simp add: getTimeEntries_def)

text \<open>
  Claim C5 at a store with one entry whose project is \<open>project-b\<close> and whose manual
  override is \<open>project-a\<close>: the filter \<open>project-b\<close> returns the entry, although its
  effective project, the one under which the summaries and the exports count it, is
  \<open>project-a\<close>.
\<close>

theorem getTimeEntries_filter_ignores_override:
  "map id_entry (getTimeEntries 0 2000 (Some ''project-b'')
       (snd (insertTimeEntry overriddenEntry initDatabase))) = [1]
   \<and> map effectiveProjectId (getTimeEntries 0 2000 (Some ''project-b'')
       (snd (insertTimeEntry overriddenEntry initDatabase))) = [''project-a'']"
  by (simp add: getTimeEntries_def insertTimeEntry_def rowOf_def initDatabase_def
        overriddenEntry_def effectiveProjectId_def Let_def)

subsection \<open>Category breakdown of the daily summary\<close>

lemma categoryMap_foldl_summaryStep:
  "categoryMap (foldl summaryStep v es) = categoryMap v"
  by (induction es arbitrary: v) (simp_all add: summaryStep_def Let_def)

lemma categoryBreakdown_empty:
  "categoryBreakdown (getDailySummary tza d db) = []"
  by (simp add: getDailySummary_def Let_def categoryMap_foldl_summaryStep summaryInit_def)

text \<open>
  Claim C1 at the input of the test ``categoryBreakdown is populated from aiAnalysis'':
  three entries that are not idle, of 3600, 1800 and 1800 seconds, with the categories
  coding, communication and coding in their analysis. The summary counts the 7200
  seconds and the three entries under the project, and its category breakdown is
  empty.
\<close>

theorem getDailySummary_no_categories_on_test_input:
  "categoryBreakdown (getDailySummary 0 1736942400000 testDatabase) = []
   \<and> activeSeconds (getDailySummary 0 1736942400000 testDatabase) = 7200
   \<and> map (\<lambda>p. (projectId_p p, seconds_p p, entries_p p))
        (projectBreakdown (getDailySummary 0 1736942400000 testDatabase))
       = [(''test-project'', 7200, 3)]"
  by code_simp

subsection \<open>The store under the sampler\<close>

lemma rowOf_simps:
  "timestamp (rowOf e n) = timestamp e" "durationSeconds (rowOf e n) = durationSeconds e"
  "isIdle (rowOf e n) = isIdle e" "id_entry (rowOf e n) = n"
  by (simp_all add: rowOf_def)

lemma rows_insertTimeEntry:
  "rows (snd (insertTimeEntry e db)) = rows db @ [rowOf e (Suc (seq db))]"
  "seq (snd (insertTimeEntry e db)) = Suc (seq db)"
  "fst (insertTimeEntry e db) = Suc (seq db)"
  by (simp_all add: insertTimeEntry_def Let_def)

lemma lastEntry_snoc:
  "\<forall>x\<in>set rs. timestamp x < timestamp r \<Longrightarrow> lastEntry (rs @ [r]) = Some r"
  by (induction rs) auto

lemma updatePreviousEntryDuration_empty:
  "rows db = [] \<Longrightarrow> updatePreviousEntryDuration now db = db"
  by (simp add: updatePreviousEntryDuration_def)

lemma updatePreviousEntryDuration_snoc:
  assumes "rows db = rs @ [r]"
    and "\<forall>x\<in>set rs. timestamp x < timestamp r"
    and "\<forall>x\<in>set rs. id_entry x \<noteq> id_entry r"
  shows "updatePreviousEntryDuration now db =
           db\<lparr>rows := rs @ [r\<lparr>durationSeconds := Some ((now - timestamp r) div 1000)\<rparr>]\<rparr>"
proof -
  have "lastEntry (rows db) = Some r"
    using assms(1,2) by (simp add: lastEntry_snoc)
  moreover have "map (\<lambda>x. if id_entry x = id_entry r
                           then x\<lparr>durationSeconds := Some ((now - timestamp r) div 1000)\<rparr>
                           else x) rs = rs"
    using assms(3) by (simp add: map_idI)
  ultimately show ?thesis
    using assms(1) by (simp add: updatePreviousEntryDuration_def Let_def)
qed

lemma seq_updatePreviousEntryDuration:
  "seq (updatePreviousEntryDuration now db) = seq db"
  by (simp add: updatePreviousEntryDuration_def Let_def split: option.splits)

lemma appendEntry_empty:
  "rows db = [] \<Longrightarrow> rows (appendEntry db e) = [rowOf e (Suc (seq db))]"
  by (simp add: appendEntry_def updatePreviousEntryDuration_empty rows_insertTimeEntry)

lemma appendEntry_snoc:
  assumes "rows db = rs @ [r]"
    and "\<forall>x\<in>set rs. timestamp x < timestamp r"
    and "\<forall>x\<in>set rs. id_entry x \<noteq> id_entry r"
  shows "rows (appendEntry db e) =
           rs @ [r\<lparr>durationSeconds := Some ((timestamp e - timestamp r) div 1000)\<rparr>,
                 rowOf e (Suc (seq db))]"
  by (simp add: appendEntry_def updatePreviousEntryDuration_snoc [OF assms] rows_insertTimeEntry)

lemma seq_appendEntry: "seq (appendEntry db e) = Suc (seq db)"
  by (simp add: appendEntry_def rows_insertTimeEntry seq_updatePreviousEntryDuration)

lemma store_inv_appendEntry:
  assumes inv: "store_inv db"
    and later: "\<forall>x\<in>set (rows db). timestamp x < timestamp e"
    and dur: "durationSeconds e = None"
  shows "store_inv (appendEntry db e)"
proof (cases "rows db" rule: rev_cases)
  case Nil
  then show ?thesis
    by (simp add: store_inv_def appendEntry_empty seq_appendEntry rowOf_simps dur)
next
  case (snoc rs r)
  from inv snoc have ts: "\<forall>x\<in>set rs. timestamp x < timestamp r"
    and ids: "\<forall>x\<in>set rs. id_entry x < id_entry r"
    by (auto simp: store_inv_def sorted_wrt_append)
  from ids have ids': "\<forall>x\<in>set rs. id_entry x \<noteq> id_entry r"
    by auto
  have rows': "rows (appendEntry db e) =
      rs @ [r\<lparr>durationSeconds := Some ((timestamp e - timestamp r) div 1000)\<rparr>,
            rowOf e (Suc (seq db))]"
    using snoc ts ids' by (rule appendEntry_snoc)
  have nonneg: "0 \<le> (timestamp e - timestamp r) div 1000"
    using later snoc by (simp add: pos_imp_zdiv_nonneg_iff)
  show ?thesis
    using inv snoc later nonneg
    by (auto simp: store_inv_def rows' seq_appendEntry rowOf_simps dur sorted_wrt_append
          list_all_iff butlast_append)
qed


lemma map_timestamp_updatePreviousEntryDuration:
  "map timestamp (rows (updatePreviousEntryDuration now db)) = map timestamp (rows db)"
  by (auto simp: updatePreviousEntryDuration_def Let_def split: option.splits)

lemma map_isIdle_updatePreviousEntryDuration:
  "map isIdle (rows (updatePreviousEntryDuration now db)) = map isIdle (rows db)"
  by (auto simp: updatePreviousEntryDuration_def Let_def split: option.splits)

lemma map_timestamp_appendEntry:
  "map timestamp (rows (appendEntry db e)) = map timestamp (rows db) @ [timestamp e]"
  by (simp add: appendEntry_def rows_insertTimeEntry map_timestamp_updatePreviousEntryDuration
        rowOf_simps)

lemma map_isIdle_appendEntry:
  "map isIdle (rows (appendEntry db e)) = map isIdle (rows db) @ [isIdle e]"
  by (simp add: appendEntry_def rows_insertTimeEntry map_isIdle_updatePreviousEntryDuration
        rowOf_simps)

lemma cycle_cases:
  "captureAndAnalyze config now p db = (None, db) \<or>
   (\<exists>e. timestamp e = now \<and> durationSeconds e = None \<and> \<not> isIdle e \<and>
        captureAndAnalyze config now p db = (Some (Suc (seq db)), appendEntry db e))"
proof (cases "isIdle_s (checkIdleState config (idleTime p))")
  case True
  then show ?thesis
    by (simp add: captureAndAnalyze_def Let_def)
next
  case active: False
  show ?thesis
  proof (cases "activeWindow p")
    case None
    with active show ?thesis
      by (simp add: captureAndAnalyze_def Let_def)
  next
    case (Some windowInfo)
    show ?thesis
    proof (cases "shouldExcludeWindow windowInfo config")
      case True
      with active Some show ?thesis
        by (simp add: captureAndAnalyze_def Let_def)
    next
      case False
      let ?e = "\<lparr>timestamp = now, appName = appName_w windowInfo,
                 windowTitle = title windowInfo, screenshotPath = screenshotFile p,
                 taskDescription = None, projectId = None, manualProjectId = None,
                 durationSeconds = None, isIdle = False, aiAnalysis = None\<rparr>"
      have "captureAndAnalyze config now p db = (Some (Suc (seq db)), appendEntry db ?e)"
        using active Some False
        by (simp add: captureAndAnalyze_def appendEntry_def insertTimeEntry_def Let_def
              seq_updatePreviousEntryDuration)
      then have "timestamp ?e = now \<and> durationSeconds ?e = None \<and> \<not> isIdle ?e \<and>
          captureAndAnalyze config now p db = (Some (Suc (seq db)), appendEntry db ?e)"
        by simp
      then show ?thesis
        by blast
    qed
  qed
qed

lemma updateEntryAnalysis_maps:
  "map timestamp (rows (updateEntryAnalysis i t pr a db)) = map timestamp (rows db)"
  "map id_entry (rows (updateEntryAnalysis i t pr a db)) = map id_entry (rows db)"
  "map durationSeconds (rows (updateEntryAnalysis i t pr a db)) = map durationSeconds (rows db)"
  "map isIdle (rows (updateEntryAnalysis i t pr a db)) = map isIdle (rows db)"
  "seq (updateEntryAnalysis i t pr a db) = seq db"
  by (simp_all add: updateEntryAnalysis_def)

text \<open>The invariant speaks of the rows through these four columns and the counter only.\<close>

lemma store_inv_cong:
  assumes "map timestamp (rows db') = map timestamp (rows db)"
    and "map id_entry (rows db') = map id_entry (rows db)"
    and "map durationSeconds (rows db') = map durationSeconds (rows db)"
    and "seq db' = seq db"
  shows "store_inv db' = store_inv db"
proof -
  have len: "length (rows db') = length (rows db)"
    using assms(1) by (rule map_eq_imp_length_eq)
  have a: "list_all (\<lambda>r. id_entry r \<le> seq db') (rows db')
         = list_all (\<lambda>n. n \<le> seq db) (map id_entry (rows db'))"
    by (simp add: list_all_iff assms(4))
  have b: "list_all (\<lambda>r. id_entry r \<le> seq db) (rows db)
         = list_all (\<lambda>n. n \<le> seq db) (map id_entry (rows db))"
    by (simp add: list_all_iff)
  let ?ok = "\<lambda>d. case d of Some d \<Rightarrow> (0::int) \<le> d | None \<Rightarrow> False"
  have c: "list_all (\<lambda>r. ?ok (durationSeconds r)) (butlast (rows db'))
         = list_all ?ok (butlast (map durationSeconds (rows db')))"
    by (simp add: list_all_iff map_butlast [symmetric])
  have d: "list_all (\<lambda>r. ?ok (durationSeconds r)) (butlast (rows db))
         = list_all ?ok (butlast (map durationSeconds (rows db)))"
    by (simp add: list_all_iff map_butlast [symmetric])
  have e: "rows db' \<noteq> [] \<Longrightarrow> durationSeconds (last (rows db')) = last (map durationSeconds (rows db'))"
    by (simp add: last_map)
  have f: "rows db \<noteq> [] \<Longrightarrow> durationSeconds (last (rows db)) = last (map durationSeconds (rows db))"
    by (simp add: last_map)
  have ne: "(rows db' = []) = (rows db = [])"
    using len by auto
  show ?thesis
    unfolding store_inv_def a b c d assms(1,2)
    using e f ne assms(3) by auto
qed

lemma store_inv_updateEntryAnalysis:
  "store_inv (updateEntryAnalysis i t pr a db) = store_inv db"
  by (rule store_inv_cong) (simp_all add: updateEntryAnalysis_maps)

lemma cycleTimes_append: "cycleTimes (evs @ evs') = cycleTimes evs @ cycleTimes evs'"
  by (induction evs rule: cycleTimes.induct) simp_all

lemma run_snoc: "run config (evs @ [ev]) = step config (run config evs) ev"
  by (simp add: run_def)

lemma store_inv_initDatabase: "store_inv initDatabase"
  by (simp add: store_inv_def initDatabase_def)

lemma run_invariant:
  assumes "sorted_wrt (<) (cycleTimes evs)"
  shows "store_inv (run config evs) \<and>
         set (map timestamp (rows (run config evs))) \<subseteq> set (cycleTimes evs)"
  using assms
proof (induction evs rule: rev_induct)
  case Nil
  then show ?case
    by (simp add: run_def store_inv_initDatabase) (simp add: initDatabase_def)
next
  case (snoc ev evs)
  from snoc.prems have sorted: "sorted_wrt (<) (cycleTimes evs)"
    by (simp add: cycleTimes_append sorted_wrt_append)
  note IH = snoc.IH [OF sorted]
  show ?case
  proof (cases ev)
    case (AnalysisDone i t pr a)
    with IH show ?thesis
      by (simp add: run_snoc store_inv_updateEntryAnalysis updateEntryAnalysis_maps
            cycleTimes_append)
  next
    case (Cycle now p)
    from snoc.prems Cycle have later: "\<forall>t\<in>set (cycleTimes evs). t < now"
      by (simp add: cycleTimes_append sorted_wrt_append)
    let ?db = "run config evs"
    from cycle_cases [of config now p ?db] show ?thesis
    proof
      assume "captureAndAnalyze config now p ?db = (None, ?db)"
      with IH Cycle show ?thesis
        by (auto simp: run_snoc cycleTimes_append)
    next
      assume "\<exists>e. timestamp e = now \<and> durationSeconds e = None \<and> \<not> isIdle e \<and>
        captureAndAnalyze config now p ?db = (Some (Suc (seq ?db)), appendEntry ?db e)"
      then obtain e where e: "timestamp e = now" "durationSeconds e = None"
        and res: "captureAndAnalyze config now p ?db = (Some (Suc (seq ?db)), appendEntry ?db e)"
        by blast
      have before: "\<forall>x\<in>set (rows ?db). timestamp x < timestamp e"
        using IH later e(1) by auto
      have "store_inv (appendEntry ?db e)"
        using IH before e(2) by (simp add: store_inv_appendEntry)
      moreover have "set (map timestamp (rows (appendEntry ?db e))) \<subseteq> set (cycleTimes (evs @ [ev]))"
        using IH Cycle e(1) by (auto simp: map_timestamp_appendEntry cycleTimes_append)
      ultimately show ?thesis
        using Cycle res by (simp add: run_snoc)
    qed
  qed
qed


lemma open_entry_is_last:
  assumes "store_inv db" and "r \<in> set (rows db)" and "durationSeconds r = None"
  shows "r = last (rows db)"
proof (cases "rows db" rule: rev_cases)
  case Nil
  with assms(2) show ?thesis by simp
next
  case (snoc rs x)
  with assms show ?thesis
    by (auto simp: store_inv_def list_all_iff)
qed

lemma others_earlier:
  assumes "store_inv db" and "r' \<in> set (rows db)" and "r' \<noteq> last (rows db)"
  shows "timestamp r' < timestamp (last (rows db))"
proof (cases "rows db" rule: rev_cases)
  case Nil
  with assms(2) show ?thesis by simp
next
  case (snoc rs x)
  with assms show ?thesis
    by (auto simp: store_inv_def sorted_wrt_append)
qed

lemma closed_after_update:
  assumes "store_inv db" and "r \<in> set (rows (updatePreviousEntryDuration now db))"
  shows "durationSeconds r \<noteq> None"
proof (cases "rows db" rule: rev_cases)
  case Nil
  with assms(2) show ?thesis
    by (simp add: updatePreviousEntryDuration_empty)
next
  case (snoc rs x)
  from assms(1) snoc have ts: "\<forall>y\<in>set rs. timestamp y < timestamp x"
    and ids: "\<forall>y\<in>set rs. id_entry y \<noteq> id_entry x"
    by (auto simp: store_inv_def sorted_wrt_append)
  from assms snoc show ?thesis
    by (auto simp: updatePreviousEntryDuration_snoc [OF snoc ts ids] store_inv_def list_all_iff
          split: option.splits)
qed

lemma capture_appends:
  assumes "captureAndAnalyze config now p db = (Some i, db')"
  shows "\<exists>e. timestamp e = now \<and> durationSeconds e = None \<and> \<not> isIdle e \<and>
             rows db' = rows (updatePreviousEntryDuration now db) @ [rowOf e i]"
proof -
  from cycle_cases [of config now p db] assms
  obtain e where e: "timestamp e = now" "durationSeconds e = None" "\<not> isIdle e"
    and res: "i = Suc (seq db)" "db' = appendEntry db e"
    by auto
  have "rows db' = rows (updatePreviousEntryDuration now db) @ [rowOf e i]"
    by (simp add: res appendEntry_def rows_insertTimeEntry e(1)
          seq_updatePreviousEntryDuration)
  with e show ?thesis
    by blast
qed

text \<open>
  Claim C3. In every store state reached from the empty store by capture cycles with
  strictly increasing timestamps (each of which skips or closes the open duration and
  then inserts one entry) and by the classification writes those cycles start, at most
  one entry has no duration, and such an entry has the latest timestamp. In a cycle
  that captures, the durations are closed on the store as it was before the new entry:
  the new entry is appended after the update, with no duration, and every entry before
  it has one.
\<close>

theorem at_most_one_open_entry:
  assumes "sorted_wrt (<) (cycleTimes evs)"
  shows "(\<forall>r\<in>set (rows (run config evs)). \<forall>r'\<in>set (rows (run config evs)).
            durationSeconds r = None \<and> durationSeconds r' = None \<longrightarrow> r' = r)
       \<and> (\<forall>r\<in>set (rows (run config evs)). durationSeconds r = None \<longrightarrow>
            (\<forall>r'\<in>set (rows (run config evs)). r' \<noteq> r \<longrightarrow> timestamp r' < timestamp r))
       \<and> (\<forall>now p i db'. captureAndAnalyze config now p (run config evs) = (Some i, db') \<longrightarrow>
            (\<exists>new. rows db' = rows (updatePreviousEntryDuration now (run config evs)) @ [new]
                 \<and> id_entry new = i \<and> timestamp new = now \<and> durationSeconds new = None)
            \<and> (\<forall>r\<in>set (rows (updatePreviousEntryDuration now (run config evs))).
                 durationSeconds r \<noteq> None))"
proof -
  let ?db = "run config evs"
  have inv: "store_inv ?db"
    using run_invariant [OF assms] by simp
  have one: "\<forall>r\<in>set (rows ?db). \<forall>r'\<in>set (rows ?db).
      durationSeconds r = None \<and> durationSeconds r' = None \<longrightarrow> r' = r"
    using open_entry_is_last [OF inv] by auto
  have latest: "\<forall>r\<in>set (rows ?db). durationSeconds r = None \<longrightarrow>
      (\<forall>r'\<in>set (rows ?db). r' \<noteq> r \<longrightarrow> timestamp r' < timestamp r)"
    using open_entry_is_last [OF inv] others_earlier [OF inv] by auto
  have order: "\<forall>now p i db'. captureAndAnalyze config now p ?db = (Some i, db') \<longrightarrow>
      (\<exists>new. rows db' = rows (updatePreviousEntryDuration now ?db) @ [new]
           \<and> id_entry new = i \<and> timestamp new = now \<and> durationSeconds new = None)
      \<and> (\<forall>r\<in>set (rows (updatePreviousEntryDuration now ?db)). durationSeconds r \<noteq> None)"
  proof (intro allI impI conjI ballI)
    fix now p i db'
    assume "captureAndAnalyze config now p ?db = (Some i, db')"
    from capture_appends [OF this]
    obtain e where "timestamp e = now" "durationSeconds e = None"
      "rows db' = rows (updatePreviousEntryDuration now ?db) @ [rowOf e i]"
      by blast
    then have "rows db' = rows (updatePreviousEntryDuration now ?db) @ [rowOf e i]
        \<and> id_entry (rowOf e i) = i \<and> timestamp (rowOf e i) = now
        \<and> durationSeconds (rowOf e i) = None"
      by (simp add: rowOf_simps)
    then show "\<exists>new. rows db' = rows (updatePreviousEntryDuration now ?db) @ [new]
        \<and> id_entry new = i \<and> timestamp new = now \<and> durationSeconds new = None"
      by blast
  next
    fix now r
    assume "r \<in> set (rows (updatePreviousEntryDuration now ?db))"
    then show "durationSeconds r \<noteq> None"
      by (rule closed_after_update [OF inv])
  qed
  from one latest order show ?thesis
    by blast
qed

lemma sampleEvents_sorted: "sorted_wrt (<) (cycleTimes sampleEvents)"
  by code_simp

lemma sampleEvents_run:
  "map (\<lambda>r. (id_entry r, timestamp r, durationSeconds r)) (rows (run someConfig sampleEvents))
     = [(1, 1000, Some 60), (2, 61000, None)]"
  by code_simp

theorem at_most_one_open_entry_witness:
  "sorted_wrt (<) (cycleTimes sampleEvents)
   \<and> map (\<lambda>r. (id_entry r, timestamp r, durationSeconds r)) (rows (run someConfig sampleEvents))
       = [(1, 1000, Some 60), (2, 61000, None)]
   \<and> timestamp (rows (run someConfig sampleEvents) ! 0)
       < timestamp (rows (run someConfig sampleEvents) ! 1)"
proof -
  let ?rows = "rows (run someConfig sampleEvents)"
  have len: "length ?rows = 2"
    by code_simp
  have mem: "?rows ! 0 \<in> set ?rows" "?rows ! 1 \<in> set ?rows"
    using len by simp_all
  have "durationSeconds (?rows ! 1) = None"
    and "id_entry (?rows ! 0) \<noteq> id_entry (?rows ! 1)"
    by code_simp+
  then have "durationSeconds (?rows ! 1) = None" and "?rows ! 0 \<noteq> ?rows ! 1"
    by auto
  with at_most_one_open_entry [OF sampleEvents_sorted, of someConfig] mem
  have "timestamp (?rows ! 0) < timestamp (?rows ! 1)"
    by blast
  with sampleEvents_sorted sampleEvents_run show ?thesis
    by simp
qed

subsection \<open>Sign of the durations\<close>

text \<open>
  Cycle times that repeat keep the store in order: the latest entry is still the last
  row, because among entries of one timestamp the query for the latest one returns the
  later row.
\<close>

lemma lastEntry_snoc_le:
  "\<forall>x\<in>set rs. timestamp x \<le> timestamp r \<Longrightarrow> lastEntry (rs @ [r]) = Some r"
  by (induction rs) auto

lemma updatePreviousEntryDuration_snoc_le:
  assumes "rows db = rs @ [r]"
    and "\<forall>x\<in>set rs. timestamp x \<le> timestamp r"
    and "\<forall>x\<in>set rs. id_entry x \<noteq> id_entry r"
  shows "updatePreviousEntryDuration now db =
           db\<lparr>rows := rs @ [r\<lparr>durationSeconds := Some ((now - timestamp r) div 1000)\<rparr>]\<rparr>"
proof -
  have "lastEntry (rows db) = Some r"
    using assms(1,2) by (simp add: lastEntry_snoc_le)
  moreover have "map (\<lambda>x. if id_entry x = id_entry r
                           then x\<lparr>durationSeconds := Some ((now - timestamp r) div 1000)\<rparr>
                           else x) rs = rs"
    using assms(3) by (simp add: map_idI)
  ultimately show ?thesis
    using assms(1) by (simp add: updatePreviousEntryDuration_def Let_def)
qed

lemma store_inv_le_snoc:
  assumes "store_inv_le db" and "rows db = rs @ [r]"
  shows "\<forall>x\<in>set rs. timestamp x \<le> timestamp r" and "\<forall>x\<in>set rs. id_entry x \<noteq> id_entry r"
  using assms by (auto simp: store_inv_le_def sorted_append sorted_wrt_append)

lemma store_inv_le_appendEntry:
  assumes inv: "store_inv_le db"
    and later: "\<forall>x\<in>set (rows db). timestamp x \<le> timestamp e"
    and dur: "durationSeconds e = None"
  shows "store_inv_le (appendEntry db e)"
proof (cases "rows db" rule: rev_cases)
  case Nil
  then show ?thesis
    by (simp add: store_inv_le_def appendEntry_empty seq_appendEntry rowOf_simps dur)
next
  case (snoc rs r)
  note facts = store_inv_le_snoc [OF inv snoc]
  have rows': "rows (appendEntry db e) =
      rs @ [r\<lparr>durationSeconds := Some ((timestamp e - timestamp r) div 1000)\<rparr>,
            rowOf e (Suc (seq db))]"
    by (simp add: appendEntry_def updatePreviousEntryDuration_snoc_le [OF snoc facts]
          rows_insertTimeEntry)
  have nonneg: "0 \<le> (timestamp e - timestamp r) div 1000"
    using later snoc by (simp add: pos_imp_zdiv_nonneg_iff)
  show ?thesis
    using inv snoc later nonneg
    by (auto simp: store_inv_le_def rows' seq_appendEntry rowOf_simps dur sorted_append
          sorted_wrt_append list_all_iff butlast_append)
qed

lemma store_inv_le_cong:
  assumes "map timestamp (rows db') = map timestamp (rows db)"
    and "map id_entry (rows db') = map id_entry (rows db)"
    and "map durationSeconds (rows db') = map durationSeconds (rows db)"
    and "seq db' = seq db"
  shows "store_inv_le db' = store_inv_le db"
proof -
  have len: "length (rows db') = length (rows db)"
    using assms(1) by (rule map_eq_imp_length_eq)
  have a: "list_all (\<lambda>r. id_entry r \<le> seq db') (rows db')
         = list_all (\<lambda>n. n \<le> seq db) (map id_entry (rows db'))"
    by (simp add: list_all_iff assms(4))
  have b: "list_all (\<lambda>r. id_entry r \<le> seq db) (rows db)
         = list_all (\<lambda>n. n \<le> seq db) (map id_entry (rows db))"
    by (simp add: list_all_iff)
  let ?ok = "\<lambda>d. case d of Some d \<Rightarrow> (0::int) \<le> d | None \<Rightarrow> False"
  have c: "list_all (\<lambda>r. ?ok (durationSeconds r)) (butlast (rows db'))
         = list_all ?ok (butlast (map durationSeconds (rows db')))"
    by (simp add: list_all_iff map_butlast [symmetric])
  have d: "list_all (\<lambda>r. ?ok (durationSeconds r)) (butlast (rows db))
         = list_all ?ok (butlast (map durationSeconds (rows db)))"
    by (simp add: list_all_iff map_butlast [symmetric])
  have e: "rows db' \<noteq> [] \<Longrightarrow> durationSeconds (last (rows db')) = last (map durationSeconds (rows db'))"
    by (simp add: last_map)
  have f: "rows db \<noteq> [] \<Longrightarrow> durationSeconds (last (rows db)) = last (map durationSeconds (rows db))"
    by (simp add: last_map)
  have ne: "(rows db' = []) = (rows db = [])"
    using len by auto
  show ?thesis
    unfolding store_inv_le_def a b c d assms(1,2)
    using e f ne assms(3) by auto
qed

lemma run_invariant_le:
  assumes "sorted (cycleTimes evs)"
  shows "store_inv_le (run config evs) \<and>
         set (map timestamp (rows (run config evs))) \<subseteq> set (cycleTimes evs)"
  using assms
proof (induction evs rule: rev_induct)
  case Nil
  then show ?case
    by (simp add: run_def store_inv_le_def initDatabase_def)
next
  case (snoc ev evs)
  from snoc.prems have sorted: "sorted (cycleTimes evs)"
    by (simp add: cycleTimes_append sorted_append)
  note IH = snoc.IH [OF sorted]
  show ?case
  proof (cases ev)
    case (AnalysisDone i t pr a)
    have "store_inv_le (updateEntryAnalysis i t pr a (run config evs)) = store_inv_le (run config evs)"
      by (rule store_inv_le_cong) (simp_all add: updateEntryAnalysis_maps)
    with IH AnalysisDone show ?thesis
      by (simp add: run_snoc updateEntryAnalysis_maps cycleTimes_append)
  next
    case (Cycle now p)
    from snoc.prems Cycle have later: "\<forall>t\<in>set (cycleTimes evs). t \<le> now"
      by (simp add: cycleTimes_append sorted_append)
    let ?db = "run config evs"
    from cycle_cases [of config now p ?db] show ?thesis
    proof
      assume "captureAndAnalyze config now p ?db = (None, ?db)"
      with IH Cycle show ?thesis
        by (auto simp: run_snoc cycleTimes_append)
    next
      assume "\<exists>e. timestamp e = now \<and> durationSeconds e = None \<and> \<not> isIdle e \<and>
        captureAndAnalyze config now p ?db = (Some (Suc (seq ?db)), appendEntry ?db e)"
      then obtain e where e: "timestamp e = now" "durationSeconds e = None"
        and res: "captureAndAnalyze config now p ?db = (Some (Suc (seq ?db)), appendEntry ?db e)"
        by blast
      have before: "\<forall>x\<in>set (rows ?db). timestamp x \<le> timestamp e"
        using IH later e(1) by auto
      have "store_inv_le (appendEntry ?db e)"
        using IH before e(2) by (simp add: store_inv_le_appendEntry)
      moreover have "set (map timestamp (rows (appendEntry ?db e))) \<subseteq> set (cycleTimes (evs @ [ev]))"
        using IH Cycle e(1) by (auto simp: map_timestamp_appendEntry cycleTimes_append)
      ultimately show ?thesis
        using Cycle res by (simp add: run_snoc)
    qed
  qed
qed

lemma durations_nonneg_inv_le:
  assumes "store_inv_le db" and "r \<in> set (rows db)" and "durationSeconds r = Some d"
  shows "0 \<le> d"
proof (cases "rows db" rule: rev_cases)
  case Nil
  with assms(2) show ?thesis by simp
next
  case (snoc rs x)
  with assms show ?thesis
    by (auto simp: store_inv_le_def list_all_iff split: option.splits)
qed

lemma foldl_summaryStep_sums:
  "totalTrackedSeconds_v (foldl summaryStep v es)
     = totalTrackedSeconds_v v + sum_list (map durationOrZero es)
   \<and> activeSeconds_v (foldl summaryStep v es)
     = activeSeconds_v v + sum_list (map durationOrZero (filter (\<lambda>r. \<not> isIdle r) es))
   \<and> idleSeconds_v (foldl summaryStep v es)
     = idleSeconds_v v + sum_list (map durationOrZero (filter isIdle es))"
proof (induction es arbitrary: v)
  case Nil
  show ?case by simp
next
  case (Cons r es)
  from Cons.IH [of "summaryStep v r"] show ?case
    by (simp add: summaryStep_def durationOrZero_def Let_def)
qed

lemma getDailySummary_sums:
  "totalTrackedSeconds (getDailySummary tza d db)
     = sum_list (map durationOrZero (entriesOfDay tza d db))
   \<and> activeSeconds (getDailySummary tza d db)
     = sum_list (map durationOrZero (filter (\<lambda>r. \<not> isIdle r) (entriesOfDay tza d db)))
   \<and> idleSeconds (getDailySummary tza d db)
     = sum_list (map durationOrZero (filter isIdle (entriesOfDay tza d db)))"
  using foldl_summaryStep_sums [of summaryInit "entriesOfDay tza d db"]
  by (simp add: getDailySummary_def entriesOfDay_def Let_def summaryInit_def)

text \<open>
  Claim C4, as amended. In every store state reached from the empty store by capture
  cycles whose timestamps do not decrease, a duration that is not null is at least 0.
  Nothing clamps or flags: when \<open>updatePreviousEntryDuration\<close> is called on such a
  state with a time earlier than the timestamp of the open entry, it stores the whole
  seconds from that timestamp to the given time, a negative number, on that entry and
  leaves the other entries as they are. \<open>getDailySummary\<close> adds the stored duration of
  every entry of its day, whatever its sign, to \<open>totalTrackedSeconds\<close>, and to
  \<open>activeSeconds\<close> or \<open>idleSeconds\<close>.
\<close>

theorem durations_nonnegative_unless_clock_goes_back:
  "(sorted (cycleTimes evs) \<longrightarrow>
      (\<forall>r\<in>set (rows (run config evs)). \<forall>d. durationSeconds r = Some d \<longrightarrow> 0 \<le> d))
   \<and> (\<forall>rs r now. sorted (cycleTimes evs) \<and> rows (run config evs) = rs @ [r]
          \<and> now < timestamp r \<longrightarrow>
        durationSeconds r = None
        \<and> rows (updatePreviousEntryDuration now (run config evs))
          = rs @ [r\<lparr>durationSeconds := Some ((now - timestamp r) div 1000)\<rparr>]
        \<and> (now - timestamp r) div 1000 < 0)
   \<and> totalTrackedSeconds (getDailySummary tza d db)
       = sum_list (map durationOrZero (entriesOfDay tza d db))
   \<and> activeSeconds (getDailySummary tza d db)
       = sum_list (map durationOrZero (filter (\<lambda>r. \<not> isIdle r) (entriesOfDay tza d db)))
   \<and> idleSeconds (getDailySummary tza d db)
       = sum_list (map durationOrZero (filter isIdle (entriesOfDay tza d db)))"
proof (intro conjI impI allI ballI)
  fix r d'
  assume "sorted (cycleTimes evs)"
  then have "store_inv_le (run config evs)"
    using run_invariant_le by simp
  moreover assume "r \<in> set (rows (run config evs))" and "durationSeconds r = Some d'"
  ultimately show "0 \<le> d'"
    by (rule durations_nonneg_inv_le)
next
  fix rs r now
  assume h: "sorted (cycleTimes evs) \<and> rows (run config evs) = rs @ [r] \<and> now < timestamp r"
  then have inv: "store_inv_le (run config evs)" and rows: "rows (run config evs) = rs @ [r]"
    using run_invariant_le by simp_all
  from inv rows show "durationSeconds r = None"
    by (simp add: store_inv_le_def)
  show "rows (updatePreviousEntryDuration now (run config evs))
          = rs @ [r\<lparr>durationSeconds := Some ((now - timestamp r) div 1000)\<rparr>]"
    by (simp add: updatePreviousEntryDuration_snoc_le [OF rows store_inv_le_snoc [OF inv rows]])
  from h show "(now - timestamp r) div 1000 < 0"
    by (simp add: pos_imp_zdiv_neg_iff)
next
  show "totalTrackedSeconds (getDailySummary tza d db)
       = sum_list (map durationOrZero (entriesOfDay tza d db))"
    and "activeSeconds (getDailySummary tza d db)
       = sum_list (map durationOrZero (filter (\<lambda>r. \<not> isIdle r) (entriesOfDay tza d db)))"
    and "idleSeconds (getDailySummary tza d db)
       = sum_list (map durationOrZero (filter isIdle (entriesOfDay tza d db)))"
    using getDailySummary_sums [of tza d db] by simp_all
qed


lemma sampleEvents_sorted_le: "sorted (cycleTimes sampleEvents)"
  by code_simp

lemma sampleEvents_rows_split:
  "rows (run someConfig sampleEvents)
     = butlast (rows (run someConfig sampleEvents)) @ [last (rows (run someConfig sampleEvents))]"
proof -
  have "length (rows (run someConfig sampleEvents)) = 2"
    by code_simp
  then have "rows (run someConfig sampleEvents) \<noteq> []"
    by auto
  then show ?thesis
    by simp
qed

lemma sampleEvents_last_timestamp:
  "timestamp (last (rows (run someConfig sampleEvents))) = 61000"
  by code_simp

lemma sampleEvents_first_duration:
  "durationSeconds (rows (run someConfig sampleEvents) ! 0) = Some 60"
  by code_simp

lemma skewedEvents_sum:
  "sum_list (map durationOrZero (entriesOfDay 0 0 (run someConfig skewedEvents))) = - 5"
  by code_simp

theorem durations_nonnegative_unless_clock_goes_back_witness:
  "sorted (cycleTimes sampleEvents)
   \<and> durationSeconds (rows (run someConfig sampleEvents) ! 0) = Some 60
   \<and> (0::int) \<le> 60
   \<and> rows (run someConfig sampleEvents)
       = butlast (rows (run someConfig sampleEvents)) @ [last (rows (run someConfig sampleEvents))]
   \<and> 60000 < timestamp (last (rows (run someConfig sampleEvents)))
   \<and> durationSeconds (last (rows (run someConfig sampleEvents))) = None
   \<and> durationSeconds
        (last (rows (updatePreviousEntryDuration 60000 (run someConfig sampleEvents))))
       = Some (- 1)
   \<and> butlast (rows (updatePreviousEntryDuration 60000 (run someConfig sampleEvents)))
       = butlast (rows (run someConfig sampleEvents))
   \<and> totalTrackedSeconds (getDailySummary 0 0 (run someConfig skewedEvents)) = - 5
   \<and> activeSeconds (getDailySummary 0 0 (run someConfig skewedEvents))
       = sum_list (map durationOrZero
           (filter (\<lambda>r. \<not> isIdle r) (entriesOfDay 0 0 (run someConfig skewedEvents))))
   \<and> idleSeconds (getDailySummary 0 0 (run someConfig skewedEvents))
       = sum_list (map durationOrZero
           (filter isIdle (entriesOfDay 0 0 (run someConfig skewedEvents))))"
proof -
  let ?db = "run someConfig sampleEvents"
  note inst = durations_nonnegative_unless_clock_goes_back
         [of sampleEvents someConfig 0 0 "run someConfig skewedEvents"]
  have len: "length (rows ?db) = 2"
    by code_simp
  have mem: "rows ?db ! 0 \<in> set (rows ?db)"
    using len by simp
  from inst sampleEvents_sorted_le mem sampleEvents_first_duration
  have nonneg: "(0::int) \<le> 60"
    by blast
  have before: "60000 < timestamp (last (rows ?db))"
    by (simp add: sampleEvents_last_timestamp)
  from inst sampleEvents_sorted_le sampleEvents_rows_split before
  have upd: "rows (updatePreviousEntryDuration 60000 ?db)
      = butlast (rows ?db)
        @ [(last (rows ?db))\<lparr>durationSeconds :=
              Some ((60000 - timestamp (last (rows ?db))) div 1000)\<rparr>]"
    by blast
  from inst sampleEvents_sorted_le sampleEvents_rows_split before
  have open_last: "durationSeconds (last (rows ?db)) = None"
    by blast
  have last_upd: "durationSeconds (last (rows (updatePreviousEntryDuration 60000 ?db))) = Some (- 1)"
    unfolding upd by (simp add: sampleEvents_last_timestamp)
  have butlast_upd: "butlast (rows (updatePreviousEntryDuration 60000 ?db)) = butlast (rows ?db)"
    unfolding upd by simp
  from inst have total: "totalTrackedSeconds (getDailySummary 0 0 (run someConfig skewedEvents))
      = sum_list (map durationOrZero (entriesOfDay 0 0 (run someConfig skewedEvents)))"
    and active: "activeSeconds (getDailySummary 0 0 (run someConfig skewedEvents))
      = sum_list (map durationOrZero
          (filter (\<lambda>r. \<not> isIdle r) (entriesOfDay 0 0 (run someConfig skewedEvents))))"
    and idle: "idleSeconds (getDailySummary 0 0 (run someConfig skewedEvents))
      = sum_list (map durationOrZero
          (filter isIdle (entriesOfDay 0 0 (run someConfig skewedEvents))))"
    by blast+
  show ?thesis
    using sampleEvents_sorted_le sampleEvents_first_duration nonneg sampleEvents_rows_split
      before open_last last_upd butlast_upd total [unfolded skewedEvents_sum] active idle
    by (intro conjI)
qed

text \<open>
  Claim C4 as stated fails: when the second cycle reads a clock five seconds behind the
  first entry, the first entry gets the duration -5, and the daily summary adds it to
  its totals.
\<close>

theorem negative_duration_counterexample:
  "map durationSeconds (rows (run someConfig skewedEvents)) = [Some (- 5), None]
   \<and> activeSeconds (getDailySummary 0 0 (run someConfig skewedEvents)) = - 5
   \<and> totalTrackedSeconds (getDailySummary 0 0 (run someConfig skewedEvents)) = - 5"
  by code_simp

subsection \<open>Idle entries\<close>

lemma not_idle_appendEntry:
  "\<forall>r\<in>set (rows db). \<not> isIdle r \<Longrightarrow> \<not> isIdle e \<Longrightarrow>
   \<forall>r\<in>set (rows (appendEntry db e)). \<not> isIdle r"
proof -
  assume a: "\<forall>r\<in>set (rows db). \<not> isIdle r" and b: "\<not> isIdle e"
  have "set (map isIdle (rows (appendEntry db e))) \<subseteq> {False}"
    using a b by (auto simp: map_isIdle_appendEntry)
  then show ?thesis
    by auto
qed

lemma not_idle_updateEntryAnalysis:
  "\<forall>r\<in>set (rows db). \<not> isIdle r \<Longrightarrow>
   \<forall>r\<in>set (rows (updateEntryAnalysis i t pr a db)). \<not> isIdle r"
  by (auto simp: updateEntryAnalysis_def)

lemma run_not_idle: "\<forall>r\<in>set (rows (run config evs)). \<not> isIdle r"
proof (induction evs rule: rev_induct)
  case Nil
  show ?case
    by (simp add: run_def initDatabase_def)
next
  case (snoc ev evs)
  show ?case
  proof (cases ev)
    case (AnalysisDone i t pr a)
    with not_idle_updateEntryAnalysis [OF snoc.IH] show ?thesis
      by (simp add: run_snoc)
  next
    case (Cycle now p)
    from cycle_cases [of config now p "run config evs"] show ?thesis
    proof
      assume "captureAndAnalyze config now p (run config evs) = (None, run config evs)"
      with snoc.IH Cycle show ?thesis
        by (simp add: run_snoc)
    next
      assume "\<exists>e. timestamp e = now \<and> durationSeconds e = None \<and> \<not> isIdle e \<and>
        captureAndAnalyze config now p (run config evs)
          = (Some (Suc (seq (run config evs))), appendEntry (run config evs) e)"
      then obtain e where "\<not> isIdle e"
        and "captureAndAnalyze config now p (run config evs)
               = (Some (Suc (seq (run config evs))), appendEntry (run config evs) e)"
        by blast
      with snoc.IH Cycle show ?thesis
        by (simp add: run_snoc not_idle_appendEntry)
    qed
  qed
qed

lemma foldl_summaryStep_not_idle:
  "\<forall>r\<in>set es. \<not> isIdle r \<Longrightarrow>
   idleSeconds_v (foldl summaryStep v es) = idleSeconds_v v \<and>
   activeSeconds_v (foldl summaryStep v es) - activeSeconds_v v
     = totalTrackedSeconds_v (foldl summaryStep v es) - totalTrackedSeconds_v v"
proof (induction es arbitrary: v)
  case Nil
  show ?case by simp
next
  case (Cons r es)
  from Cons.prems have r: "\<not> isIdle r" and es: "\<forall>x\<in>set es. \<not> isIdle x"
    by simp_all
  from Cons.IH [OF es, of "summaryStep v r"] r show ?case
    by (simp add: summaryStep_def Let_def)
qed

lemma getDailySummary_not_idle:
  assumes "\<forall>r\<in>set (rows db). \<not> isIdle r"
  shows "idleSeconds (getDailySummary tza d db) = 0 \<and>
         activeSeconds (getDailySummary tza d db) = totalTrackedSeconds (getDailySummary tza d db)"
proof -
  let ?s = "setHours tza d 0 0 0 0"
  let ?es = "getTimeEntries ?s (setDate tza ?s (getDate tza ?s + 1)) None db"
  have "\<forall>r\<in>set ?es. \<not> isIdle r"
    using assms by (simp add: getTimeEntries_set)
  from foldl_summaryStep_not_idle [OF this, of summaryInit] show ?thesis
    by (simp add: getDailySummary_def Let_def summaryInit_def)
qed

text \<open>
  Claim C10. The entry that a capture cycle inserts has \<open>isIdle = False\<close>, and a cycle
  that finds the user idle inserts nothing. So in a store that only the sampler (with
  its classification writes) has filled no entry is idle, and every daily summary of it
  has \<open>idleSeconds = 0\<close> and \<open>activeSeconds = totalTrackedSeconds\<close>.
\<close>

theorem sampler_entries_never_idle:
  "(\<forall>now p db i db'. captureAndAnalyze config now p db = (Some i, db') \<longrightarrow>
      (\<exists>new. rows db' = rows (updatePreviousEntryDuration now db) @ [new]
           \<and> id_entry new = i \<and> \<not> isIdle new))
   \<and> (\<forall>now p db. isIdle_s (checkIdleState config (idleTime p)) \<longrightarrow>
        captureAndAnalyze config now p db = (None, db))
   \<and> (\<forall>r\<in>set (rows (run config evs)). \<not> isIdle r)
   \<and> (\<forall>tza d. idleSeconds (getDailySummary tza d (run config evs)) = 0
        \<and> activeSeconds (getDailySummary tza d (run config evs))
            = totalTrackedSeconds (getDailySummary tza d (run config evs)))"
proof (intro conjI allI impI)
  fix now p db i db'
  assume "captureAndAnalyze config now p db = (Some i, db')"
  from capture_appends [OF this]
  obtain e where "\<not> isIdle e"
    and "rows db' = rows (updatePreviousEntryDuration now db) @ [rowOf e i]"
    by blast
  then have "rows db' = rows (updatePreviousEntryDuration now db) @ [rowOf e i]
      \<and> id_entry (rowOf e i) = i \<and> \<not> isIdle (rowOf e i)"
    by (simp add: rowOf_simps)
  then show "\<exists>new. rows db' = rows (updatePreviousEntryDuration now db) @ [new]
      \<and> id_entry new = i \<and> \<not> isIdle new"
    by blast
next
  fix now and p :: Probes and db
  assume "isIdle_s (checkIdleState config (idleTime p))"
  then show "captureAndAnalyze config now p db = (None, db)"
    by (simp add: captureAndAnalyze_def Let_def)
next
  show "\<forall>r\<in>set (rows (run config evs)). \<not> isIdle r"
    by (rule run_not_idle)
next
  fix tza d
  show "idleSeconds (getDailySummary tza d (run config evs)) = 0"
    using getDailySummary_not_idle [OF run_not_idle] by simp
  show "activeSeconds (getDailySummary tza d (run config evs))
      = totalTrackedSeconds (getDailySummary tza d (run config evs))"
    using getDailySummary_not_idle [OF run_not_idle] by simp
qed

lemma sample_capture:
  "captureAndAnalyze someConfig 1000 activeProbes initDatabase
     = (Some 1, run someConfig [Cycle 1000 activeProbes])"
  by code_simp

lemma sample_idle: "isIdle_s (checkIdleState someConfig (idleTime idleProbes))"
  by code_simp

lemma sample_summary:
  "map isIdle (rows (run someConfig sampleEvents)) = [False, False]
   \<and> totalTrackedSeconds (getDailySummary 0 5000 (run someConfig sampleEvents)) = 60"
  by code_simp

theorem sampler_entries_never_idle_witness:
  "captureAndAnalyze someConfig 1000 activeProbes initDatabase
     = (Some 1, run someConfig [Cycle 1000 activeProbes])
   \<and> (\<exists>new. rows (run someConfig [Cycle 1000 activeProbes])
               = rows (updatePreviousEntryDuration 1000 initDatabase) @ [new]
           \<and> id_entry new = 1 \<and> \<not> isIdle new)
   \<and> isIdle_s (checkIdleState someConfig (idleTime idleProbes))
   \<and> captureAndAnalyze someConfig 2000 idleProbes (run someConfig [Cycle 1000 activeProbes])
       = (None, run someConfig [Cycle 1000 activeProbes])
   \<and> length (rows (run someConfig sampleEvents)) = 2
   \<and> \<not> isIdle (rows (run someConfig sampleEvents) ! 0)
   \<and> \<not> isIdle (rows (run someConfig sampleEvents) ! 1)
   \<and> idleSeconds (getDailySummary 0 5000 (run someConfig sampleEvents)) = 0
   \<and> activeSeconds (getDailySummary 0 5000 (run someConfig sampleEvents)) = 60"
proof -
  let ?rows = "rows (run someConfig sampleEvents)"
  note inst = sampler_entries_never_idle [of someConfig sampleEvents]
  have len: "length ?rows = 2"
    using sample_summary by (metis length_map length_Cons list.size(3) numeral_2_eq_2)
  then have mem: "?rows ! 0 \<in> set ?rows" "?rows ! 1 \<in> set ?rows"
    by simp_all
  with inst have rows: "\<not> isIdle (?rows ! 0)" "\<not> isIdle (?rows ! 1)"
    by blast+
  from inst sample_capture sample_idle sample_summary
  have "captureAndAnalyze someConfig 1000 activeProbes initDatabase
     = (Some 1, run someConfig [Cycle 1000 activeProbes])
   \<and> (\<exists>new. rows (run someConfig [Cycle 1000 activeProbes])
               = rows (updatePreviousEntryDuration 1000 initDatabase) @ [new]
           \<and> id_entry new = 1 \<and> \<not> isIdle new)
   \<and> isIdle_s (checkIdleState someConfig (idleTime idleProbes))
   \<and> captureAndAnalyze someConfig 2000 idleProbes (run someConfig [Cycle 1000 activeProbes])
       = (None, run someConfig [Cycle 1000 activeProbes])
   \<and> idleSeconds (getDailySummary 0 5000 (run someConfig sampleEvents)) = 0
   \<and> activeSeconds (getDailySummary 0 5000 (run someConfig sampleEvents)) = 60"
    by metis
  with len rows show ?thesis
    by simp
qed

subsection \<open>Durations after a sequence of appends\<close>

lemma appendAll_snoc: "appendAll (es @ [e]) = appendEntry (appendAll es) e"
  by (simp add: appendAll_def)

lemma expectedRow_simps:
  "timestamp (expectedRow es i) = timestamp (es ! i)"
  "id_entry (expectedRow es i) = Suc i"
  by (simp_all add: expectedRow_def rowOf_def)

lemma expectedRow_snoc_old:
  "Suc i < length es \<Longrightarrow> expectedRow (es @ [e]) i = expectedRow es i"
  by (simp add: expectedRow_def nth_append)

lemma expectedRow_snoc_closed:
  "expectedRow (es @ [x, e]) (length es) =
     (expectedRow (es @ [x]) (length es))
       \<lparr>durationSeconds := Some ((timestamp e - timestamp x) div 1000)\<rparr>"
  by (simp add: expectedRow_def rowOf_def nth_append)

lemma expectedRow_snoc_new:
  "expectedRow (es @ [e]) (length es) = rowOf e (Suc (length es))"
  by (simp add: expectedRow_def rowOf_def)

lemma appendAll_rows:
  assumes "sorted_wrt (<) (map timestamp es)"
  shows "rows (appendAll es) = map (expectedRow es) [0..<length es] \<and>
         seq (appendAll es) = length es"
  using assms
proof (induction es rule: rev_induct)
  case Nil
  show ?case
    by (simp add: appendAll_def initDatabase_def)
next
  case (snoc e es)
  from snoc.prems have sorted: "sorted_wrt (<) (map timestamp es)"
    by (simp add: sorted_wrt_append)
  note IH = snoc.IH [OF sorted]
  have seq': "seq (appendAll (es @ [e])) = length (es @ [e])"
    using IH by (simp add: appendAll_snoc seq_appendEntry)
  have "rows (appendAll (es @ [e])) = map (expectedRow (es @ [e])) [0..<length (es @ [e])]"
  proof (cases es rule: rev_cases)
    case Nil
    have "rows (appendAll es) = []"
      using IH Nil by simp
    then have "rows (appendAll (es @ [e])) = [rowOf e (Suc (seq (appendAll es)))]"
      unfolding appendAll_snoc by (rule appendEntry_empty)
    moreover have "seq (appendAll es) = 0"
      using IH Nil by simp
    moreover have "expectedRow [e] 0 = rowOf e (Suc 0)"
      using expectedRow_snoc_new [where es = "[]" and e = e] by simp
    ultimately show ?thesis
      using Nil by simp
  next
    case (snoc ys x)
    let ?n = "length ys"
    let ?rs = "map (expectedRow es) [0..<?n]"
    let ?r = "expectedRow es ?n"
    have rows: "rows (appendAll es) = ?rs @ [?r]"
      using IH snoc by simp
    have sorted_es: "sorted_wrt (<) (map timestamp (ys @ [x]))"
      using sorted snoc by simp
    have ts: "\<forall>y\<in>set ?rs. timestamp y < timestamp ?r"
    proof
      fix y assume "y \<in> set ?rs"
      then obtain i where i: "i < ?n" and y: "y = expectedRow es i"
        by auto
      have "timestamp (es ! i) < timestamp (es ! ?n)"
        using sorted_wrt_nth_less [OF sorted, of i ?n] i snoc by (simp add: nth_append)
      then show "timestamp y < timestamp ?r"
        by (simp add: y expectedRow_simps)
    qed
    have ids: "\<forall>y\<in>set ?rs. id_entry y \<noteq> id_entry ?r"
      by (auto simp: expectedRow_simps)
    have step: "rows (appendAll (es @ [e])) =
        ?rs @ [?r\<lparr>durationSeconds := Some ((timestamp e - timestamp ?r) div 1000)\<rparr>,
               rowOf e (Suc (seq (appendAll es)))]"
      unfolding appendAll_snoc using rows ts ids by (rule appendEntry_snoc)
    have old: "map (expectedRow (es @ [e])) [0..<?n] = ?rs"
    proof (rule map_cong [OF refl])
      fix i assume "i \<in> set [0..<?n]"
      then have "Suc i < length es"
        using snoc by simp
      then show "expectedRow (es @ [e]) i = expectedRow es i"
        by (rule expectedRow_snoc_old)
    qed
    have closed: "expectedRow (es @ [e]) ?n =
        ?r\<lparr>durationSeconds := Some ((timestamp e - timestamp ?r) div 1000)\<rparr>"
      using expectedRow_snoc_closed [of ys x e]
      by (simp add: snoc expectedRow_simps)
    have new: "expectedRow (es @ [e]) (Suc ?n) = rowOf e (Suc (seq (appendAll es)))"
      using expectedRow_snoc_new [where es = es and e = e] IH by (simp add: snoc)
    have "map (expectedRow (es @ [e])) [0..<length (es @ [e])] =
        map (expectedRow (es @ [e])) [0..<?n]
          @ [expectedRow (es @ [e]) ?n, expectedRow (es @ [e]) (Suc ?n)]"
      by (simp add: snoc)
    then show ?thesis
      unfolding step old closed new by simp
  qed
  with seq' show ?case
    by simp
qed

text \<open>
  Claim C2. Append \<open>N\<close> entries with strictly increasing timestamps and no duration
  to the empty store, closing the open duration at each new timestamp just before the
  insert. Then the store has the \<open>N\<close> entries in order, entry \<open>i\<close> has the duration
  \<open>floor((t\<^sub>i\<^sub>+\<^sub>1 - t\<^sub>i) / 1000)\<close> for every \<open>i < N\<close>, and the last entry has none. On the
  empty store closing the open duration changes nothing.
\<close>

theorem appended_durations:
  assumes "sorted_wrt (<) (map timestamp es)"
    and "\<forall>e\<in>set es. durationSeconds e = None"
  shows "length (rows (appendAll es)) = length es
       \<and> (\<forall>i<length es.
            timestamp (rows (appendAll es) ! i) = timestamp (es ! i)
            \<and> durationSeconds (rows (appendAll es) ! i) =
                (if Suc i < length es
                 then Some ((timestamp (es ! Suc i) - timestamp (es ! i)) div 1000)
                 else None))
       \<and> updatePreviousEntryDuration now initDatabase = initDatabase"
proof (intro conjI allI impI)
  show "length (rows (appendAll es)) = length es"
    using appendAll_rows [OF assms(1)] by simp
next
  fix i assume i: "i < length es"
  then have row: "rows (appendAll es) ! i = expectedRow es i"
    using appendAll_rows [OF assms(1)] by simp
  show "timestamp (rows (appendAll es) ! i) = timestamp (es ! i)"
    by (simp add: row expectedRow_simps)
  have "durationSeconds (es ! i) = None"
    using assms(2) i by simp
  then show "durationSeconds (rows (appendAll es) ! i) =
      (if Suc i < length es
       then Some ((timestamp (es ! Suc i) - timestamp (es ! i)) div 1000)
       else None)"
    by (simp add: row expectedRow_def rowOf_def)
next
  show "updatePreviousEntryDuration now initDatabase = initDatabase"
    by (simp add: updatePreviousEntryDuration_def initDatabase_def)
qed

lemma sampleEntries_ok:
  "sorted_wrt (<) (map timestamp sampleEntries) \<and> (\<forall>e\<in>set sampleEntries. durationSeconds e = None)"
  by code_simp

theorem appended_durations_witness:
  "sorted_wrt (<) (map timestamp sampleEntries)
   \<and> map durationSeconds sampleEntries = [None, None, None]
   \<and> map timestamp sampleEntries = [1000, 2500, 4000]
   \<and> length (rows (appendAll sampleEntries)) = 3
   \<and> durationSeconds (rows (appendAll sampleEntries) ! 0) = Some 1
   \<and> durationSeconds (rows (appendAll sampleEntries) ! 1) = Some 1
   \<and> durationSeconds (rows (appendAll sampleEntries) ! 2) = None"
proof -
  have ok1: "sorted_wrt (<) (map timestamp sampleEntries)"
    and ok2: "\<forall>e\<in>set sampleEntries. durationSeconds e = None"
    using sampleEntries_ok by simp_all
  have ds: "map durationSeconds sampleEntries = [None, None, None]"
    by code_simp
  have ts: "map timestamp sampleEntries = [1000, 2500, 4000]"
    by code_simp
  have len: "length sampleEntries = 3"
    using ts by (metis length_map length_Cons list.size(3) numeral_3_eq_3)
  have nth: "timestamp (sampleEntries ! 0) = 1000" "timestamp (sampleEntries ! Suc 0) = 2500"
    "timestamp (sampleEntries ! Suc (Suc 0)) = 4000"
    by code_simp+
  from appended_durations [OF ok1 ok2, of 0]
  have all: "length (rows (appendAll sampleEntries)) = length sampleEntries"
    and each: "\<And>i. i < length sampleEntries \<Longrightarrow>
        durationSeconds (rows (appendAll sampleEntries) ! i) =
          (if Suc i < length sampleEntries
           then Some ((timestamp (sampleEntries ! Suc i) - timestamp (sampleEntries ! i)) div 1000)
           else None)"
    by simp_all
  have "durationSeconds (rows (appendAll sampleEntries) ! 0) = Some 1"
    using each [of 0] by (simp add: len nth)
  moreover have "durationSeconds (rows (appendAll sampleEntries) ! 1) = Some 1"
    using each [of "Suc 0"] by (simp add: len nth)
  moreover have "durationSeconds (rows (appendAll sampleEntries) ! 2) = None"
    using each [of 2] by (simp add: len)
  ultimately show ?thesis
    using ok1 ds ts all len by simp
qed
end
